theory Spec2Isabelle
  imports Main "HOL-Library.Multiset"
begin

section \<open>Prow storage layout: jobs, builds, discovery, ranking and log scanning\<close>

text \<open>
  A shallow embedding of \<^verbatim>\<open>vendor/github.com/knative/test-infra/shared/prow/prow.go\<close>.
  Go strings are byte strings (\<^typ>\<open>string\<close>). Go's \<^verbatim>\<open>int\<close> is taken at 64 bits; the
  model keeps values of that type as \<^typ>\<open>int\<close> and writes the range check out where the
  code can leave the range, which is in \<^verbatim>\<open>strconv.Atoi\<close> only (no arithmetic is done on
  build identifiers, pull identifiers or timestamps). A returned Go \<^verbatim>\<open>error\<close> is a value
  of the type \<open>error\<close>; a run-time panic is a value of the type \<open>panic\<close>.
\<close>

subsection \<open>Errors and panics\<close>

datatype error =
    ErrSyntax      \<comment> \<open>\<^verbatim>\<open>strconv.ErrSyntax\<close>\<close>
  | ErrRange       \<comment> \<open>\<^verbatim>\<open>strconv.ErrRange\<close>\<close>
  | ErrTooLong     \<comment> \<open>\<^verbatim>\<open>bufio.ErrTooLong\<close>\<close>
  | ErrStorage string  \<comment> \<open>any failure reported by the storage client\<close>
  | ErrDecode string   \<comment> \<open>any failure reported by \<^verbatim>\<open>json.Unmarshal\<close>\<close>

datatype panic =
    SliceBoundsOutOfRange int   \<comment> \<open>slice expression \<^verbatim>\<open>s[:n]\<close> with a bound out of range\<close>
  | NilPointerDereference       \<comment> \<open>method call through a nil reader\<close>

subsection \<open>Constants of the package\<close>

definition OrgName :: string where "OrgName = ''knative''"
definition BucketName :: string where "BucketName = ''knative-prow''"
definition Latest :: string where "Latest = ''latest-build.txt''"
definition BuildLog :: string where "BuildLog = ''build-log.txt''"
definition StartedJSON :: string where "StartedJSON = ''started.json''"
definition FinishedJSON :: string where "FinishedJSON = ''finished.json''"
definition ArtifactsDir :: string where "ArtifactsDir = ''artifacts''"
definition PresubmitJob :: string where "PresubmitJob = ''presubmit''"
definition PostsubmitJob :: string where "PostsubmitJob = ''postsubmit''"
definition PeriodicJob :: string where "PeriodicJob = ''periodic''"
definition BatchJob :: string where "BatchJob = ''batch''"

subsection \<open>Library functions used by the package: \<^verbatim>\<open>strconv\<close>\<close>

text \<open>\<^verbatim>\<open>strconv.Itoa\<close>: the decimal rendering of an integer, with a minus sign when negative.\<close>

definition digit_char :: "nat \<Rightarrow> char" where
  "digit_char d = ''0123456789'' ! d"

fun digits :: "nat \<Rightarrow> string" where
  "digits n = (if n < 10 then [digit_char n] else digits (n div 10) @ [digit_char (n mod 10)])"

declare digits.simps [simp del]

definition Itoa :: "int \<Rightarrow> string" where
  "Itoa i = (if i < 0 then CHR ''-'' # digits (nat (- i)) else digits (nat i))"

text \<open>
  \<^verbatim>\<open>strconv.Atoi\<close> at \<^verbatim>\<open>intSize = 64\<close>: an optional sign, then at least one decimal digit and
  nothing else. The digits are read left to right; a byte that is no digit is a syntax
  error, an accumulated magnitude above \<^verbatim>\<open>MaxUint64\<close> a range error, whichever is met
  first; a magnitude that does not fit a signed 64-bit integer with the given sign is a
  range error. The number returned beside an error is dropped: no caller here reads it.
\<close>

definition digit_val :: "char \<Rightarrow> nat option" where
  "digit_val c = (let b = (of_char c :: nat) in if 48 \<le> b \<and> b \<le> 57 then Some (b - 48) else None)"

definition maxUint64 :: nat where "maxUint64 = 2 ^ 64 - 1"

fun parse_digits :: "nat \<Rightarrow> string \<Rightarrow> error + nat" where
  "parse_digits n [] = Inr n"
| "parse_digits n (c # cs) =
     (case digit_val c of
        None \<Rightarrow> Inl ErrSyntax
      | Some d \<Rightarrow> if n * 10 + d > maxUint64 then Inl ErrRange else parse_digits (n * 10 + d) cs)"

definition Atoi :: "string \<Rightarrow> error + int" where
  "Atoi s =
     (let neg = (s \<noteq> [] \<and> hd s = CHR ''-'');
          ds = (if s \<noteq> [] \<and> (hd s = CHR ''-'' \<or> hd s = CHR ''+'') then tl s else s)
      in if ds = [] then Inl ErrSyntax
         else (case parse_digits 0 ds of
                 Inl e \<Rightarrow> Inl e
               | Inr un \<Rightarrow>
                   if \<not> neg \<and> un \<ge> 2 ^ 63 then Inl ErrRange
                   else if neg \<and> un > 2 ^ 63 then Inl ErrRange
                   else Inr (if neg then - int un else int un)))"

subsection \<open>Library functions used by the package: \<^verbatim>\<open>strings\<close> and \<^verbatim>\<open>path\<close>\<close>

text \<open>\<^verbatim>\<open>strings.Split(s, "/")\<close> and \<^verbatim>\<open>strings.Join(elems, "/")\<close>.\<close>

fun split_slash :: "string \<Rightarrow> string list" where
  "split_slash [] = [[]]"
| "split_slash (c # cs) =
     (if c = CHR ''/'' then [] # split_slash cs
      else (case split_slash cs of
              [] \<Rightarrow> [[c]]
            | e # es \<Rightarrow> (c # e) # es))"

fun join_slash :: "string list \<Rightarrow> string" where
  "join_slash [] = []"
| "join_slash [e] = e"
| "join_slash (e # f # es) = e @ ''/'' @ join_slash (f # es)"

text \<open>
  \<^verbatim>\<open>path.Clean\<close>, element by element as the library's loop reads them: an empty element
  and \<^verbatim>\<open>.\<close> are dropped; \<^verbatim>\<open>..\<close> removes the element written last unless there is none
  to remove (nothing written yet, or only leading \<^verbatim>\<open>..\<close> elements), in which case it
  is kept on a path that is not rooted and dropped on a rooted one; any other element is
  written. The result of an empty path, or of one that cleans to nothing, is \<^verbatim>\<open>.\<close>.
\<close>

definition clean_step :: "bool \<Rightarrow> string list \<Rightarrow> string \<Rightarrow> string list" where
  "clean_step rooted out e =
     (if e = [] then out
      else if e = ''.'' then out
      else if e = ''..'' then
        (if out \<noteq> [] \<and> last out \<noteq> ''..'' then butlast out
         else if \<not> rooted then out @ [''..'']
         else out)
      else out @ [e])"

definition Clean :: "string \<Rightarrow> string" where
  "Clean p =
     (if p = [] then ''.''
      else
        let rooted = (hd p = CHR ''/'');
            out = foldl (clean_step rooted) [] (split_slash p);
            s = (if rooted then ''/'' else []) @ join_slash out
        in if s = [] then ''.'' else s)"

text \<open>
  \<^verbatim>\<open>path.Join\<close>: leading empty elements are ignored, the rest is joined with slashes
  and cleaned; with no non-empty element the result is the empty string.
\<close>

definition path_Join :: "string list \<Rightarrow> string" where
  "path_Join elem =
     (case dropWhile (\<lambda>e. e = []) elem of
        [] \<Rightarrow> []
      | e # es \<Rightarrow> Clean (join_slash (e # es)))"

text \<open>\<^verbatim>\<open>path.Split\<close>: the path is cut right after its last slash into directory and file.\<close>

definition path_Split :: "string \<Rightarrow> string \<times> string" where
  "path_Split p =
     (let file = rev (takeWhile (\<lambda>c. c \<noteq> CHR ''/'') (rev p))
      in (take (length p - length file) p, file))"

text \<open>\<^verbatim>\<open>strings.TrimRight\<close> with a cutset of ASCII characters.\<close>

definition TrimRight :: "string \<Rightarrow> string \<Rightarrow> string" where
  "TrimRight s cutset = rev (dropWhile (\<lambda>c. c \<in> set cutset) (rev s))"

subsection \<open>Jobs and builds\<close>

record Build =
  JobName :: string
  StoragePath :: string
  BuildID :: int
  Bucket :: string

record Job =
  Name :: string
  Type :: string
  Bucket :: string
  Repo :: string
  StoragePath :: string
  PullID :: int
  Builds :: "Build list"

text \<open>
  \<^verbatim>\<open>logFatalf\<close> is a package variable, \<^verbatim>\<open>log.Fatalf\<close> unless replaced ("defined here so
  that it can be mocked for unit testing"). The installed function receives the formatted
  message and either ends the process, as \<^verbatim>\<open>log.Fatalf\<close> does, or returns to its caller.
\<close>

datatype fatal_hook_result = ExitsProcess | ReturnsToCaller

definition log_Fatalf :: "string \<Rightarrow> fatal_hook_result" where
  "log_Fatalf msg = ExitsProcess"

text \<open>
  \<^verbatim>\<open>NewJob\<close>. The result is the list of messages passed to the fatal hook, and the job
  returned to the caller, \<open>None\<close> when the process ended inside the hook.
\<close>

definition NewJob ::
  "(string \<Rightarrow> fatal_hook_result) \<Rightarrow> string \<Rightarrow> string \<Rightarrow> string \<Rightarrow> int \<Rightarrow> string list \<times> Job option"
where
  "NewJob logFatalf jobName jobType repoName pullID =
     (let job = \<lparr>Name = jobName, Type = jobType, Job.Bucket = BucketName, Repo = [],
                 Job.StoragePath = [], PullID = 0, Builds = []\<rparr>
      in if jobType = PeriodicJob \<or> jobType = PostsubmitJob then
           ([], Some (job\<lparr>Job.StoragePath := path_Join [''logs'', jobName]\<rparr>))
         else if jobType = PresubmitJob then
           ([], Some (job\<lparr>PullID := pullID,
                           Job.StoragePath := path_Join [''pr-logs'', ''pull'', OrgName @ ''_'' @ repoName,
                                                         Itoa pullID, jobName]\<rparr>))
         else if jobType = BatchJob then
           ([], Some (job\<lparr>Job.StoragePath := path_Join [''pr-logs'', ''pull'', ''batch'', jobName]\<rparr>))
         else
           (let msg = ''unknown job spec type: '' @ jobType
            in case logFatalf msg of
                 ExitsProcess \<Rightarrow> ([msg], None)
               | ReturnsToCaller \<Rightarrow> ([msg], Some job)))"

text \<open>The method \<^verbatim>\<open>(j *Job) NewBuild\<close>.\<close>

definition Job_NewBuild :: "Job \<Rightarrow> int \<Rightarrow> Build" where
  "Job_NewBuild j buildID =
     \<lparr>JobName = Name j,
      Build.StoragePath = path_Join [Job.StoragePath j, Itoa buildID],
      BuildID = buildID,
      Build.Bucket = BucketName\<rparr>"

text \<open>The package function \<^verbatim>\<open>NewBuild\<close>, which takes the storage path as it is given.\<close>

definition NewBuild :: "string \<Rightarrow> string \<Rightarrow> int \<Rightarrow> Build" where
  "NewBuild jobName storagePath buildID =
     \<lparr>JobName = jobName, Build.StoragePath = storagePath, BuildID = buildID,
      Build.Bucket = BucketName\<rparr>"

definition GetArtifactsDir :: "Build \<Rightarrow> string" where
  "GetArtifactsDir b = path_Join [Build.StoragePath b, ArtifactsDir]"

definition GetBuildLogPath :: "Build \<Rightarrow> string" where
  "GetBuildLogPath b = path_Join [Build.StoragePath b, BuildLog]"

definition getBuildIDFromBuildPath :: "string \<Rightarrow> error + int" where
  "getBuildIDFromBuildPath buildPath = Atoi (snd (path_Split (TrimRight buildPath '' /'')))"

subsection \<open>The collaborators: storage client and JSON decoder\<close>

text \<open>
  The package \<^verbatim>\<open>gcs\<close> and \<^verbatim>\<open>json.Unmarshal\<close> are outside the file; the functions take
  them as a record of what each call answers. Storage is read only, so one call has one
  answer throughout an operation.

  A \<open>Reader\<close> is the open stream as \<^verbatim>\<open>bufio.Scanner\<close> with its default line splitter
  sees it: the lines for which \<^verbatim>\<open>Scan\<close> answers true, in order, and what
  \<^verbatim>\<open>scanner.Err()\<close> is once \<^verbatim>\<open>Scan\<close> has answered false: \<open>None\<close> at the end of the
  stream, the error of the failed read otherwise, or \<^verbatim>\<open>bufio.ErrTooLong\<close> when a line does
  not fit the scanner's buffer. \<^verbatim>\<open>gcs.NewReader\<close> answers a reader, \<open>None\<close> for Go's
  nil, and an error.
\<close>

record Reader =
  tokens :: "string list"
  ending :: "error option"

text \<open>
  The decode targets. Timestamps are \<^verbatim>\<open>int64\<close> values, kept as \<^typ>\<open>int\<close>: they are
  compared and never computed with. The values of \<^verbatim>\<open>Metadata\<close>, of any JSON type in the
  source, are kept as their JSON text.
\<close>

record Started =
  Timestamp :: int
  RepoVersion :: string
  Node :: string
  Pull :: string
  Repos :: "string \<rightharpoonup> string"

record Finished =
  Timestamp :: int
  Passed :: bool
  JobVersion :: string
  Metadata :: "string \<rightharpoonup> string"

record env =
  gcs_Exist :: "string \<Rightarrow> string \<Rightarrow> bool"
  gcs_Read :: "string \<Rightarrow> string \<Rightarrow> error + string"
  gcs_ListDirectChildren :: "string \<Rightarrow> string \<Rightarrow> string list"
  gcs_NewReader :: "string \<Rightarrow> string \<Rightarrow> Reader option \<times> error option"
  json_Unmarshal_Started :: "string \<Rightarrow> error + Started"
  json_Unmarshal_Finished :: "string \<Rightarrow> error + Finished"

subsection \<open>Build discovery\<close>

fun GetBuilds_loop :: "Job \<Rightarrow> string list \<Rightarrow> Build list \<Rightarrow> Build list" where
  "GetBuilds_loop j [] builds = builds"
| "GetBuilds_loop j (gcsBuildPath # rest) builds =
     (case getBuildIDFromBuildPath gcsBuildPath of
        Inl err \<Rightarrow> GetBuilds_loop j rest builds
      | Inr buildID \<Rightarrow> GetBuilds_loop j rest (builds @ [Job_NewBuild j buildID]))"

definition GetBuilds :: "env \<Rightarrow> Job \<Rightarrow> Build list" where
  "GetBuilds w j =
     GetBuilds_loop j (gcs_ListDirectChildren w (Job.Bucket j) (Job.StoragePath j)) []"

subsection \<open>Build status\<close>

definition IsStarted :: "env \<Rightarrow> Build \<Rightarrow> bool" where
  "IsStarted w b = gcs_Exist w BucketName (path_Join [Build.StoragePath b, StartedJSON])"

definition IsFinished :: "env \<Rightarrow> Build \<Rightarrow> bool" where
  "IsFinished w b = gcs_Exist w BucketName (path_Join [Build.StoragePath b, FinishedJSON])"

text \<open>
  \<^verbatim>\<open>unmarshalJSONFile\<close> with the decoder for the type of its target. Beside the result it
  gives the objects it read from storage, as pairs of bucket and object name.
\<close>

definition unmarshalJSONFile ::
  "env \<Rightarrow> string \<Rightarrow> (string \<Rightarrow> error + 'v) \<Rightarrow> (string \<times> string) list \<times> (error + 'v)"
where
  "unmarshalJSONFile w storagePath unmarshal =
     ([(BucketName, storagePath)],
      case gcs_Read w BucketName storagePath of
        Inl err \<Rightarrow> Inl err
      | Inr contents \<Rightarrow>
          (case unmarshal contents of
             Inl err \<Rightarrow> Inl err
           | Inr v \<Rightarrow> Inr v))"

definition GetStartedTime :: "env \<Rightarrow> Build \<Rightarrow> (string \<times> string) list \<times> (int \<times> error option)" where
  "GetStartedTime w b =
     (case unmarshalJSONFile w (path_Join [Build.StoragePath b, FinishedJSON]) (json_Unmarshal_Started w) of
        (reads, Inl err) \<Rightarrow> (reads, (- 1, Some err))
      | (reads, Inr started) \<Rightarrow> (reads, (Started.Timestamp started, None)))"

definition GetFinishedTime :: "env \<Rightarrow> Build \<Rightarrow> (string \<times> string) list \<times> (int \<times> error option)" where
  "GetFinishedTime w b =
     (case unmarshalJSONFile w (path_Join [Build.StoragePath b, FinishedJSON]) (json_Unmarshal_Finished w) of
        (reads, Inl err) \<Rightarrow> (reads, (- 1, Some err))
      | (reads, Inr finished) \<Rightarrow> (reads, (Finished.Timestamp finished, None)))"

subsection \<open>Build ranking\<close>

fun GetFinishedBuilds_loop :: "env \<Rightarrow> Build list \<Rightarrow> Build list \<Rightarrow> Build list" where
  "GetFinishedBuilds_loop w [] finishedBuilds = finishedBuilds"
| "GetFinishedBuilds_loop w (build # rest) finishedBuilds =
     (if True = IsFinished w build then GetFinishedBuilds_loop w rest (finishedBuilds @ [build])
      else GetFinishedBuilds_loop w rest finishedBuilds)"

definition GetFinishedBuilds :: "env \<Rightarrow> Job \<Rightarrow> Build list" where
  "GetFinishedBuilds w j = GetFinishedBuilds_loop w (GetBuilds w j) []"



text \<open>
  One function that meets the contract is the library's \<^verbatim>\<open>insertionSort\<close>: each element in
  turn is swapped towards the front while it is less than the element before it. \<open>sift\<close>
  is that inner loop, on the part already sorted held in reverse. It is used to show that
  the contract can be met and to evaluate examples; no statement about
  \<^verbatim>\<open>GetLatestBuilds\<close> depends on it.
\<close>

fun sift :: "('a \<Rightarrow> 'a \<Rightarrow> bool) \<Rightarrow> 'a \<Rightarrow> 'a list \<Rightarrow> 'a list" where
  "sift lessf x [] = [x]"
| "sift lessf x (y # front) = (if lessf x y then y # sift lessf x front else x # y # front)"

definition insertionSort :: "('a \<Rightarrow> 'a \<Rightarrow> bool) \<Rightarrow> 'a list \<Rightarrow> 'a list" where
  "insertionSort lessf xs = rev (foldl (\<lambda>front x. sift lessf x front) [] xs)"

text \<open>The slice expression \<^verbatim>\<open>s[:n]\<close>, for \<open>n\<close> up to the length of \<open>s\<close>; beyond it and
  below zero it is out of range.\<close>

definition slice_to :: "'a list \<Rightarrow> int \<Rightarrow> panic + 'a list" where
  "slice_to s n =
     (if n < 0 \<or> int (length s) < n then Inl (SliceBoundsOutOfRange n)
      else Inr (take (nat n) s))"

text \<open>The comparator that \<^verbatim>\<open>GetLatestBuilds\<close> hands to \<^verbatim>\<open>sort.Slice\<close>, on the two builds
  the indices stand for.\<close>

definition GetLatestBuilds_less :: "env \<Rightarrow> Build \<Rightarrow> Build \<Rightarrow> bool" where
  "GetLatestBuilds_less w b1 b2 =
     (case snd (GetStartedTime w b1) of
        (startedTime1, Some err1) \<Rightarrow> False
      | (startedTime1, None) \<Rightarrow>
          (case snd (GetStartedTime w b2) of
             (startedTime2, Some err2) \<Rightarrow> True
           | (startedTime2, None) \<Rightarrow> startedTime1 > startedTime2))"

definition GetLatestBuilds ::
  "((Build \<Rightarrow> Build \<Rightarrow> bool) \<Rightarrow> Build list \<Rightarrow> Build list) \<Rightarrow> env \<Rightarrow> Job \<Rightarrow> int
     \<Rightarrow> panic + Build list"
where
  "GetLatestBuilds sort_Slice w j count' =
     (let builds = sort_Slice (GetLatestBuilds_less w) (GetFinishedBuilds w j)
      in if int (length builds) < count' then Inr builds
         else slice_to builds count')"

subsection \<open>Log scanning\<close>

text \<open>
  \<^verbatim>\<open>strings.Fields\<close>: the maximal runs of bytes between white space. White space is
  what \<^verbatim>\<open>unicode.IsSpace\<close> accepts, here as the UTF-8 bytes of those code points:
  the six ASCII ones, U+0085, U+00A0, U+1680, U+2000 to U+200A, U+2028, U+2029, U+202F,
  U+205F and U+3000. \<open>space_width\<close> is the number of bytes of the white-space character
  the string begins with, 0 when it begins with none.
\<close>

definition asciiSpace :: "char \<Rightarrow> bool" where
  "asciiSpace c \<longleftrightarrow> c \<in> {CHR 0x09, CHR 0x0A, CHR 0x0B, CHR 0x0C, CHR 0x0D, CHR 0x20}"

definition space_width :: "string \<Rightarrow> nat" where
  "space_width s =
     (case s of
        [] \<Rightarrow> 0
      | c # r \<Rightarrow>
          if asciiSpace c then 1
          else if c = CHR 0xC2 \<and> (take 1 r = [CHR 0x85] \<or> take 1 r = [CHR 0xA0]) then 2
          else if c = CHR 0xE1 \<and> take 2 r = [CHR 0x9A, CHR 0x80] then 3
          else if c = CHR 0xE2 \<and> take 1 r = [CHR 0x80] \<and>
                  (take 1 (drop 1 r) \<in> {[CHR 0x80], [CHR 0x81], [CHR 0x82], [CHR 0x83], [CHR 0x84],
                     [CHR 0x85], [CHR 0x86], [CHR 0x87], [CHR 0x88], [CHR 0x89], [CHR 0x8A],
                     [CHR 0xA8], [CHR 0xA9], [CHR 0xAF]}) then 3
          else if c = CHR 0xE2 \<and> take 2 r = [CHR 0x81, CHR 0x9F] then 3
          else if c = CHR 0xE3 \<and> take 2 r = [CHR 0x80, CHR 0x80] then 3
          else 0)"

fun fields_from :: "string \<Rightarrow> string \<Rightarrow> string list" where
  "fields_from field [] = (if field = [] then [] else [field])"
| "fields_from field (c # cs) =
     (if space_width (c # cs) = 0 then fields_from (field @ [c]) cs
      else (if field = [] then [] else [field]) @ fields_from [] (drop (space_width (c # cs) - 1) cs))"

definition Fields :: "string \<Rightarrow> string list" where
  "Fields s = fields_from [] s"

text \<open>
  \<^verbatim>\<open>ParseLog\<close>. \<open>scan_loop\<close> is the loop over \<^verbatim>\<open>scanner.Scan()\<close>; \<open>checkLog\<close> answers
  \<open>None\<close> for Go's nil pointer. \<open>deferred_Close\<close> is the \<^verbatim>\<open>defer f.Close()\<close> registered
  right after the reader is requested: it runs when the body is left, whichever way, and
  calling it through a nil reader panics. The result is what \<^verbatim>\<open>ParseLog\<close> returns and
  the number of times the reader was closed.
\<close>

fun scan_loop :: "(string list \<Rightarrow> string option) \<Rightarrow> string list \<Rightarrow> string list \<Rightarrow> string list" where
  "scan_loop checkLog [] logs = logs"
| "scan_loop checkLog (text # rest) logs =
     (case checkLog (Fields text) of
        None \<Rightarrow> scan_loop checkLog rest logs
      | Some s \<Rightarrow> scan_loop checkLog rest (logs @ [s]))"

definition deferred_Close :: "Reader option \<Rightarrow> panic + 'a \<Rightarrow> panic + ('a \<times> nat)" where
  "deferred_Close f body =
     (case f of
        None \<Rightarrow> Inl NilPointerDereference
      | Some r \<Rightarrow>
          (case body of
             Inl p \<Rightarrow> Inl p
           | Inr v \<Rightarrow> Inr (v, 1)))"

definition ParseLog ::
  "env \<Rightarrow> Build \<Rightarrow> (string list \<Rightarrow> string option) \<Rightarrow> panic + ((string list \<times> error option) \<times> nat)"
where
  "ParseLog w b checkLog =
     (case gcs_NewReader w (Build.Bucket b) (GetBuildLogPath b) of
        (f, err) \<Rightarrow>
          deferred_Close f
            (case err of
               Some e \<Rightarrow> Inr ([], Some e)
             | None \<Rightarrow>
                 (case f of
                    None \<Rightarrow> Inl NilPointerDereference
                  | Some r \<Rightarrow> Inr (scan_loop checkLog (tokens r) [], None))))"

subsection \<open>Predicates used in the statements\<close>

text \<open>
  A plain element is a path element that \<^verbatim>\<open>path.Clean\<close> keeps as it is; a plain path is
  a sequence of plain elements separated by single slashes, neither rooted nor ending in
  a slash.
\<close>

definition plain_elem :: "string \<Rightarrow> bool" where
  "plain_elem e \<longleftrightarrow> e \<noteq> [] \<and> e \<noteq> ''.'' \<and> e \<noteq> ''..''"

definition plain_path :: "string \<Rightarrow> bool" where
  "plain_path p \<longleftrightarrow> list_all plain_elem (split_slash p)"

text \<open>
  The elements that \<^verbatim>\<open>path.Clean\<close> has written at any moment on a path that is not
  rooted: some \<^verbatim>\<open>..\<close> elements, then plain elements only.
\<close>

definition dotdot_then_plain :: "string list \<Rightarrow> bool" where
  "dotdot_then_plain out \<longleftrightarrow>
     list_all plain_elem (dropWhile (\<lambda>e. e = ''..'') out)"

text \<open>The number that a string of decimal digits denotes, most significant digit first.\<close>

definition decimal_value :: "string \<Rightarrow> nat" where
  "decimal_value ds = foldl (\<lambda>v c. 10 * v + (of_char c - 48)) 0 ds"

subsection \<open>A sample bucket\<close>

text \<open>
  The periodic job \<^verbatim>\<open>ci\<close>, and a bucket in which its directory lists five children: the
  builds 3, 7 and 10, which have finished, an entry \<^verbatim>\<open>-1\<close> and a stray \<^verbatim>\<open>abc\<close>. The finish
  marker of build 3 carries the timestamp 100, that of build 10 the timestamp 50, and
  that of build 7 cannot be decoded. The log of build 3 has three lines, the log of build
  7 is empty, the stream of the log of build 10 breaks after two lines, and no other log
  can be opened. Marker contents are written without their double quotes.
\<close>

definition example_job :: Job where
  "example_job = \<lparr>Name = ''ci'', Type = PeriodicJob, Job.Bucket = BucketName, Repo = [],
                   Job.StoragePath = ''logs/ci'', PullID = 0, Builds = []\<rparr>"

definition example_timestamp :: "string \<Rightarrow> error + int" where
  "example_timestamp contents =
     (if contents = ''{timestamp: 100, passed: true}'' then Inr 100
      else if contents = ''{timestamp: 50, passed: false}'' then Inr 50
      else Inl (ErrDecode ''unexpected end of JSON input''))"

definition example_env :: env where
  "example_env =
     \<lparr>gcs_Exist = (\<lambda>bucket p. bucket = BucketName \<and>
          p \<in> {''logs/ci/3/finished.json'', ''logs/ci/7/finished.json'', ''logs/ci/10/finished.json'',
               ''logs/ci/3/started.json'', ''logs/ci/7/started.json'', ''logs/ci/10/started.json'',
               ''logs/ci/-1/started.json''}),
      gcs_Read = (\<lambda>bucket p.
          if bucket = BucketName \<and> p = ''logs/ci/3/finished.json'' then Inr ''{timestamp: 100, passed: true}''
          else if bucket = BucketName \<and> p = ''logs/ci/7/finished.json'' then Inr ''{timestamp: 7''
          else if bucket = BucketName \<and> p = ''logs/ci/10/finished.json'' then Inr ''{timestamp: 50, passed: false}''
          else Inl (ErrStorage ''storage: object doesn't exist'')),
      gcs_ListDirectChildren = (\<lambda>bucket prefix.
          if bucket = BucketName \<and> prefix = ''logs/ci''
          then [''logs/ci/3/'', ''logs/ci/abc'', ''logs/ci/7/'', ''logs/ci/10/'', ''logs/ci/-1/'']
          else []),
      gcs_NewReader = (\<lambda>bucket p.
          if bucket = BucketName \<and> p = ''logs/ci/3/build-log.txt''
          then (Some \<lparr>tokens = [''build ok'', ''ERROR disk full'', ''build ok''], ending = None\<rparr>, None)
          else if bucket = BucketName \<and> p = ''logs/ci/7/build-log.txt''
          then (Some \<lparr>tokens = [], ending = None\<rparr>, None)
          else if bucket = BucketName \<and> p = ''logs/ci/10/build-log.txt''
          then (Some \<lparr>tokens = [''build ok'', ''ERROR disk full''],
                      ending = Some (ErrStorage ''connection reset by peer'')\<rparr>, None)
          else (None, Some (ErrStorage ''storage: object doesn't exist''))),
      json_Unmarshal_Started = (\<lambda>contents.
          case example_timestamp contents of
            Inl err \<Rightarrow> Inl err
          | Inr t \<Rightarrow> Inr \<lparr>Started.Timestamp = t, RepoVersion = [], Node = [], Pull = [], Repos = Map.empty\<rparr>),
      json_Unmarshal_Finished = (\<lambda>contents.
          case example_timestamp contents of
            Inl err \<Rightarrow> Inl err
          | Inr t \<Rightarrow> Inr \<lparr>Finished.Timestamp = t, Passed = (t = 100), JobVersion = [], Metadata = Map.empty\<rparr>)\<rparr>"

text \<open>A \<^verbatim>\<open>checkLog\<close> that keeps the lines whose first word is \<^verbatim>\<open>ERROR\<close>, their words joined
  by single spaces.\<close>

fun unwords :: "string list \<Rightarrow> string" where
  "unwords [] = []"
| "unwords [t] = t"
| "unwords (t # u # ts) = t @ '' '' @ unwords (u # ts)"

definition example_checkLog :: "string list \<Rightarrow> string option" where
  "example_checkLog s = (if s \<noteq> [] \<and> hd s = ''ERROR'' then Some (unwords s) else None)"

section \<open>Properties\<close>

subsection \<open>The library functions on examples of their documentation and tests\<close>

lemma Clean_examples:
  "Clean [] = ''.''" "Clean ''abc'' = ''abc''" "Clean ''abc/def'' = ''abc/def''" "Clean ''.'' = ''.''"
  "Clean ''..'' = ''..''" "Clean ''../..'' = ''../..''" "Clean ''../../abc'' = ''../../abc''"
  "Clean ''/abc'' = ''/abc''" "Clean ''/'' = ''/''"
  "Clean ''abc/'' = ''abc''" "Clean ''abc/def/'' = ''abc/def''" "Clean ''./'' = ''.''"
  "Clean ''../'' = ''..''" "Clean ''../../'' = ''../..''" "Clean ''/abc/'' = ''/abc''"
  "Clean ''abc//def//ghi'' = ''abc/def/ghi''" "Clean ''//abc'' = ''/abc''" "Clean ''///abc'' = ''/abc''"
  "Clean ''//abc//'' = ''/abc''" "Clean ''abc//'' = ''abc''"
  "Clean ''abc/./def'' = ''abc/def''" "Clean ''/./abc/def'' = ''/abc/def''" "Clean ''abc/.'' = ''abc''"
  "Clean ''abc/def/ghi/../jkl'' = ''abc/def/jkl''" "Clean ''abc/def/../ghi/../jkl'' = ''abc/jkl''"
  "Clean ''abc/def/..'' = ''abc''" "Clean ''abc/def/../..'' = ''.''" "Clean ''/abc/def/../..'' = ''/''"
  "Clean ''abc/def/../../..'' = ''..''" "Clean ''/abc/def/../../..'' = ''/''"
  "Clean ''abc/def/../../../ghi/jkl/../../../mno'' = ''../../mno''"
  "Clean ''abc/./../def'' = ''def''" "Clean ''abc//./../def'' = ''def''"
  "Clean ''abc/../../././../def'' = ''../../def''"
  by (simp_all add: Clean_def clean_step_def)

lemma path_Join_examples:
  "path_Join [] = []" "path_Join [[]] = []" "path_Join [''a''] = ''a''" "path_Join [''a'', ''b''] = ''a/b''"
  "path_Join [''a'', []] = ''a''" "path_Join [[], ''b''] = ''b''" "path_Join [''/'', ''a''] = ''/a''"
  "path_Join [''/'', []] = ''/''" "path_Join [''a/'', ''b''] = ''a/b''" "path_Join [''a/'', []] = ''a''"
  "path_Join [[], []] = []"
  by (simp_all add: path_Join_def Clean_def clean_step_def)

lemma path_Split_examples:
  "path_Split ''a/b'' = (''a/'', ''b'')" "path_Split ''a/b/'' = (''a/b/'', [])" "path_Split ''a/'' = (''a/'', [])"
  "path_Split ''a'' = ([], ''a'')" "path_Split ''/'' = (''/'', [])"
  by (simp_all add: path_Split_def)

lemma TrimRight_examples:
  "TrimRight ''logs/ci/12/'' '' /'' = ''logs/ci/12''" "TrimRight ''12 / '' '' /'' = ''12''"
  "TrimRight '' / '' '' /'' = []" "TrimRight ''a b'' '' /'' = ''a b''"
  by (simp_all add: TrimRight_def)

lemma Itoa_examples:
  "Itoa 0 = ''0''" "Itoa 7 = ''7''" "Itoa 1203 = ''1203''" "Itoa (- 45) = ''-45''"
  "Itoa 9223372036854775807 = ''9223372036854775807''"
  "Itoa (- 9223372036854775808) = ''-9223372036854775808''"
  by (simp_all add: Itoa_def digits.simps digit_char_def)

lemma Atoi_examples:
  "Atoi [] = Inl ErrSyntax" "Atoi ''0'' = Inr 0" "Atoi ''-0'' = Inr 0" "Atoi ''+5'' = Inr 5"
  "Atoi ''07'' = Inr 7" "Atoi ''-1'' = Inr (- 1)" "Atoi ''abc'' = Inl ErrSyntax" "Atoi ''12a'' = Inl ErrSyntax"
  "Atoi ''-'' = Inl ErrSyntax" "Atoi ''+'' = Inl ErrSyntax" "Atoi '' 1'' = Inl ErrSyntax"
  "Atoi ''1_000'' = Inl ErrSyntax" "Atoi ''0x10'' = Inl ErrSyntax"
  "Atoi ''9223372036854775807'' = Inr 9223372036854775807"
  "Atoi ''9223372036854775808'' = Inl ErrRange"
  "Atoi ''-9223372036854775808'' = Inr (- 9223372036854775808)"
  "Atoi ''-9223372036854775809'' = Inl ErrRange"
  "Atoi ''18446744073709551616'' = Inl ErrRange"
  "Atoi ''99999999999999999999x'' = Inl ErrRange"
  by (simp_all add: Atoi_def digit_val_def maxUint64_def)

lemma Fields_examples:
  "Fields ''  foo bar  baz   '' = [''foo'', ''bar'', ''baz'']"
  "Fields [] = []" "Fields ''   '' = []"
  "Fields [CHR ''a'', CHR 0x09, CHR ''b'', CHR 0x0D, CHR 0x0A] = [''a'', ''b'']"
  "Fields (''a'' @ [CHR 0xC2, CHR 0xA0] @ ''b'' @ [CHR 0xE2, CHR 0x80, CHR 0x83] @ ''c'' @ [CHR 0xE3, CHR 0x80, CHR 0x80])
     = [''a'', ''b'', ''c'']"
  "Fields (''a'' @ [CHR 0xC2] @ ''b'' @ [CHR 0xE2, CHR 0x80]) = [''a'' @ [CHR 0xC2] @ ''b'' @ [CHR 0xE2, CHR 0x80]]"
  by (simp_all add: Fields_def space_width_def asciiSpace_def)

lemma insertionSort_examples:
  "insertionSort (\<lambda>a b. a > b) [3, 1, 2, 5, 4 :: int] = [5, 4, 3, 2, 1]"
  "insertionSort (\<lambda>a b. a < b) ([] :: int list) = []"
  by (simp_all add: insertionSort_def)

lemma slice_to_examples:
  "slice_to [1, 2, 3 :: int] 2 = Inr [1, 2]" "slice_to [1, 2, 3 :: int] 0 = Inr []"
  "slice_to [1, 2, 3 :: int] 3 = Inr [1, 2, 3]"
  "slice_to [1, 2, 3 :: int] (- 1) = Inl (SliceBoundsOutOfRange (- 1))"
  by (simp_all add: slice_to_def)

subsection \<open>Splitting, joining and cleaning paths\<close>

lemma split_slash_nonempty: "split_slash p \<noteq> []"
  by (induction p) (auto split: list.splits)

lemma split_slash_slash_free: "e \<in> set (split_slash p) \<Longrightarrow> CHR ''/'' \<notin> set e"
proof (induction p arbitrary: e)
  case Nil
  then show ?case by simp
next
  case (Cons c cs)
  obtain x xs where sp: "split_slash cs = x # xs"
    using split_slash_nonempty [of cs] by (cases "split_slash cs") auto
  show ?case
  proof (cases "c = CHR ''/''")
    case True
    with Cons show ?thesis by auto
  next
    case False
    with Cons.prems sp have "e = c # x \<or> e \<in> set xs" by auto
    then show ?thesis
      using Cons.IH sp False by auto
  qed
qed

lemma join_slash_Cons: "es \<noteq> [] \<Longrightarrow> join_slash (e # es) = e @ CHR ''/'' # join_slash es"
  by (cases es) auto

lemma join_split_slash: "join_slash (split_slash p) = p"
proof (induction p)
  case Nil
  then show ?case by simp
next
  case (Cons c cs)
  obtain x xs where sp: "split_slash cs = x # xs"
    using split_slash_nonempty [of cs] by (cases "split_slash cs") auto
  show ?case
  proof (cases "c = CHR ''/''")
    case True
    then show ?thesis using Cons sp by (simp add: join_slash_Cons)
  next
    case False
    then show ?thesis using Cons sp by (cases xs) auto
  qed
qed

lemma split_slash_no_slash: "CHR ''/'' \<notin> set s \<Longrightarrow> split_slash s = [s]"
  by (induction s) (auto split: list.splits)

lemma split_slash_append: "CHR ''/'' \<notin> set a \<Longrightarrow> split_slash (a @ CHR ''/'' # s) = a # split_slash s"
  by (induction a) (auto split: list.splits)

lemma split_join_slash:
  "es \<noteq> [] \<Longrightarrow> \<forall>e\<in>set es. CHR ''/'' \<notin> set e \<Longrightarrow> split_slash (join_slash es) = es"
proof (induction es rule: join_slash.induct)
  case 1
  then show ?case by simp
next
  case (2 e)
  then show ?case by (simp add: split_slash_no_slash)
next
  case (3 e f es)
  then show ?case by (simp add: split_slash_append)
qed

lemma join_slash_append:
  "xs \<noteq> [] \<Longrightarrow> ys \<noteq> [] \<Longrightarrow> join_slash (xs @ ys) = join_slash xs @ CHR ''/'' # join_slash ys"
proof (induction xs rule: join_slash.induct)
  case 1
  then show ?case by simp
next
  case (2 e)
  then show ?case by (simp add: join_slash_Cons)
next
  case (3 e f es)
  then show ?case by simp
qed

lemma foldl_clean_step_plain:
  "\<forall>e\<in>set es. plain_elem e \<Longrightarrow> foldl (clean_step r) acc es = acc @ es"
  by (induction es arbitrary: acc) (auto simp: clean_step_def plain_elem_def)

lemma hd_join_slash: "e \<noteq> [] \<Longrightarrow> hd (join_slash (e # es)) = hd e"
  by (cases es) auto

lemma join_slash_eq_Nil: "join_slash es = [] \<longleftrightarrow> es = [] \<or> es = [[]]"
  by (induction es rule: join_slash.induct) auto

lemma Clean_plain_elems:
  assumes "es \<noteq> []" and "\<forall>e\<in>set es. plain_elem e \<and> CHR ''/'' \<notin> set e"
  shows "Clean (join_slash es) = join_slash es"
proof -
  obtain e es' where es: "es = e # es'" using assms(1) by (cases es) auto
  have e: "e \<noteq> []" "CHR ''/'' \<notin> set e" using assms(2) es by (auto simp: plain_elem_def)
  have ne: "join_slash es \<noteq> []" using e es by (simp add: join_slash_eq_Nil)
  have "hd (join_slash es) = hd e" using e es by (simp add: hd_join_slash)
  moreover have "hd e \<in> set e" using e by simp
  ultimately have nr: "hd (join_slash es) \<noteq> CHR ''/''" using e by metis
  have sp: "split_slash (join_slash es) = es"
    using assms by (simp add: split_join_slash)
  have "foldl (clean_step False) [] es = es"
    using assms(2) foldl_clean_step_plain [of es False "[]"] by simp
  then show ?thesis using ne nr sp by (simp add: Clean_def)
qed

lemma plain_path_nonempty: "plain_path p \<Longrightarrow> p \<noteq> []"
  by (auto simp: plain_path_def plain_elem_def)

lemma join_slash_concat_split:
  "es \<noteq> [] \<Longrightarrow> join_slash (concat (map split_slash es)) = join_slash es"
proof (induction es rule: join_slash.induct)
  case 1
  then show ?case by simp
next
  case (2 e)
  then show ?case by (simp add: join_split_slash)
next
  case (3 e f es)
  have "concat (map split_slash (f # es)) \<noteq> []"
    using split_slash_nonempty [of f] by simp
  then have "join_slash (split_slash e @ concat (map split_slash (f # es)))
      = join_slash (split_slash e) @ CHR ''/'' # join_slash (concat (map split_slash (f # es)))"
    using split_slash_nonempty [of e] by (rule join_slash_append [rotated])
  then show ?case using 3 by (simp add: join_split_slash)
qed

lemma path_Join_plain:
  assumes "es \<noteq> []" and "\<forall>e\<in>set es. plain_path e"
  shows "path_Join es = join_slash es"
proof -
  let ?cs = "concat (map split_slash es)"
  obtain e es' where es: "es = e # es'" using assms(1) by (cases es) auto
  have "e \<noteq> []" using assms(2) es plain_path_nonempty by simp
  then have dw: "dropWhile (\<lambda>e. e = []) es = es" using es by simp
  have "?cs \<noteq> []" using es split_slash_nonempty [of e] by simp
  moreover have "\<forall>c\<in>set ?cs. plain_elem c \<and> CHR ''/'' \<notin> set c"
    using assms(2) split_slash_slash_free by (auto simp: plain_path_def list_all_iff)
  ultimately have "Clean (join_slash ?cs) = join_slash ?cs"
    by (rule Clean_plain_elems)
  then have "Clean (join_slash es) = join_slash es"
    using assms(1) by (simp add: join_slash_concat_split)
  then show ?thesis using dw es by (simp add: path_Join_def)
qed


subsection \<open>Decimal rendering\<close>

lemma digit_char_range: "d < 10 \<Longrightarrow> digit_char d \<in> set ''0123456789''"
  unfolding digit_char_def by (rule nth_mem) simp

lemma digits_chars: "set (digits n) \<subseteq> set ''0123456789''"
proof (induction n rule: digits.induct)
  case (1 n)
  show ?case
  proof (cases "n < 10")
    case True
    then show ?thesis using digit_char_range [of n] by (subst digits.simps) simp
  next
    case False
    have "n mod 10 < 10" by simp
    then have "digit_char (n mod 10) \<in> set ''0123456789''" by (rule digit_char_range)
    then show ?thesis using False 1 by (subst digits.simps) simp
  qed
qed

lemma digits_nonempty: "digits n \<noteq> []"
  by (subst digits.simps) simp

lemma Itoa_chars: "set (Itoa i) \<subseteq> set ''-0123456789''"
proof -
  have "set (digits n) \<subseteq> set ''-0123456789''" for n
    using digits_chars [of n] by (simp add: subset_insertI2)
  then show ?thesis by (simp add: Itoa_def)
qed

lemma Itoa_nonempty: "Itoa i \<noteq> []"
  by (simp add: Itoa_def digits_nonempty)

lemma Itoa_slash_free: "CHR ''/'' \<notin> set (Itoa i)"
proof
  assume "CHR ''/'' \<in> set (Itoa i)"
  then have "CHR ''/'' \<in> set ''-0123456789''" using Itoa_chars [of i] by (rule set_mp [rotated])
  then show False by simp
qed

lemma Itoa_plain_elem: "plain_elem (Itoa i)"
proof -
  have "CHR ''.'' \<notin> set (Itoa i)"
  proof
    assume "CHR ''.'' \<in> set (Itoa i)"
    then have "CHR ''.'' \<in> set ''-0123456789''" using Itoa_chars [of i] by (rule set_mp [rotated])
    then show False by simp
  qed
  then have "Itoa i \<noteq> ''.''" "Itoa i \<noteq> ''..''" by auto
  then show ?thesis by (simp add: plain_elem_def Itoa_nonempty)
qed

lemma Itoa_plain_path: "plain_path (Itoa i)"
  by (simp add: plain_path_def split_slash_no_slash Itoa_slash_free Itoa_plain_elem)
subsection \<open>Cleaning a path that ends in a plain element\<close>

lemma split_slash_snoc:
  "CHR ''/'' \<notin> set d \<Longrightarrow> split_slash (s @ CHR ''/'' # d) = split_slash s @ [d]"
proof (induction s)
  case Nil
  then show ?case by (simp add: split_slash_no_slash)
next
  case (Cons c s)
  obtain e es where sp: "split_slash s = e # es"
    using split_slash_nonempty [of s] by (cases "split_slash s") auto
  show ?case using Cons sp by simp
qed

lemma clean_step_plain: "plain_elem d \<Longrightarrow> clean_step r out d = out @ [d]"
  by (simp add: clean_step_def plain_elem_def)

lemma join_slash_snoc:
  "join_slash (out @ [d]) = (if out = [] then d else join_slash out @ CHR ''/'' # d)"
  by (simp add: join_slash_append)

lemma Clean_snoc:
  assumes "s \<noteq> []" and "plain_elem d" and "CHR ''/'' \<notin> set d"
  shows "Clean (s @ CHR ''/'' # d)
           = (if hd s = CHR ''/'' then ''/'' else [])
             @ join_slash (foldl (clean_step (hd s = CHR ''/'')) [] (split_slash s) @ [d])"
proof -
  have "d \<noteq> []" using assms(2) by (simp add: plain_elem_def)
  then have "join_slash (foldl (clean_step (hd s = CHR ''/'')) [] (split_slash s) @ [d]) \<noteq> []"
    by (simp add: join_slash_snoc)
  then show ?thesis
    using assms by (simp add: Clean_def Let_def split_slash_snoc clean_step_plain)
qed

text \<open>
  Joining a directory and a plain name puts the name behind something that depends on
  the directory only, so two different names give two different objects.
\<close>

lemma path_Join_dir_file:
  "\<exists>x. \<forall>f. plain_elem f \<and> CHR ''/'' \<notin> set f \<longrightarrow> path_Join [dir, f] = x @ f"
proof (cases "dir = []")
  case True
  have "path_Join [dir, f] = [] @ f" if "plain_elem f \<and> CHR ''/'' \<notin> set f" for f
  proof -
    have "f \<noteq> []" using that by (simp add: plain_elem_def)
    moreover have "Clean (join_slash [f]) = join_slash [f]"
      using that by (intro Clean_plain_elems) simp_all
    ultimately show ?thesis using True by (simp add: path_Join_def)
  qed
  then show ?thesis by blast
next
  case False
  let ?out = "foldl (clean_step (hd dir = CHR ''/'')) [] (split_slash dir)"
  let ?x = "(if hd dir = CHR ''/'' then ''/'' else []) @ (if ?out = [] then [] else join_slash ?out @ ''/'')"
  have "path_Join [dir, f] = ?x @ f" if "plain_elem f \<and> CHR ''/'' \<notin> set f" for f
  proof -
    have "path_Join [dir, f] = Clean (dir @ CHR ''/'' # f)"
      using False by (simp add: path_Join_def)
    then show ?thesis
      using False that by (simp add: Clean_snoc join_slash_snoc)
  qed
  then show ?thesis by blast
qed

lemma plain_file_names:
  "plain_elem FinishedJSON" "CHR ''/'' \<notin> set FinishedJSON"
  "plain_elem StartedJSON" "CHR ''/'' \<notin> set StartedJSON"
  "plain_path FinishedJSON" "FinishedJSON \<noteq> StartedJSON"
  by (simp_all add: FinishedJSON_def StartedJSON_def plain_elem_def plain_path_def)

lemma finished_is_not_started:
  "path_Join [dir, FinishedJSON] \<noteq> path_Join [dir, StartedJSON]"
proof -
  obtain x where x: "\<forall>f. plain_elem f \<and> CHR ''/'' \<notin> set f \<longrightarrow> path_Join [dir, f] = x @ f"
    using path_Join_dir_file [of dir] by blast
  have "path_Join [dir, FinishedJSON] = x @ FinishedJSON"
    using x plain_file_names by blast
  moreover have "path_Join [dir, StartedJSON] = x @ StartedJSON"
    using x plain_file_names by blast
  ultimately show ?thesis using plain_file_names(6) by simp
qed

subsection \<open>What cleaning leaves of a path that is not rooted\<close>

lemma dropWhile_replicate: "P c \<Longrightarrow> dropWhile P (replicate k c @ xs) = dropWhile P xs"
  by (induction k) auto

lemma dotdot_then_plain_iff:
  "dotdot_then_plain out \<longleftrightarrow> (\<exists>k rs. out = replicate k ''..'' @ rs \<and> list_all plain_elem rs)"
proof
  assume a: "dotdot_then_plain out"
  let ?ds = "takeWhile (\<lambda>e. e = ''..'') out"
  have "\<forall>e\<in>set ?ds. e = ''..''" by (auto dest: set_takeWhileD)
  then have "replicate (length ?ds) ''..'' = ?ds" by (simp add: replicate_length_same)
  then have "out = replicate (length ?ds) ''..'' @ dropWhile (\<lambda>e. e = ''..'') out" by simp
  then show "\<exists>k rs. out = replicate k ''..'' @ rs \<and> list_all plain_elem rs"
    using a unfolding dotdot_then_plain_def by blast
next
  assume "\<exists>k rs. out = replicate k ''..'' @ rs \<and> list_all plain_elem rs"
  then obtain k rs where o: "out = replicate k ''..'' @ rs" and p: "list_all plain_elem rs" by blast
  have "dropWhile (\<lambda>e. e = ''..'') out = dropWhile (\<lambda>e. e = ''..'') rs"
    unfolding o by (rule dropWhile_replicate) simp
  moreover have "set (dropWhile (\<lambda>e. e = ''..'') rs) \<subseteq> set rs" by (rule set_dropWhileD [THEN subsetI])
  ultimately show "dotdot_then_plain out"
    using p by (auto simp: dotdot_then_plain_def list_all_iff)
qed

lemma dotdot_then_plainI:
  "out = replicate k ''..'' @ rs \<Longrightarrow> list_all plain_elem rs \<Longrightarrow> dotdot_then_plain out"
  unfolding dotdot_then_plain_iff by (intro exI conjI)

lemma dotdot_then_plainE:
  assumes "dotdot_then_plain out"
  obtains k rs where "out = replicate k ''..'' @ rs" and "list_all plain_elem rs"
  using assms unfolding dotdot_then_plain_iff by (elim exE conjE)

lemma clean_step_keeps_form:
  assumes "dotdot_then_plain out"
  shows "dotdot_then_plain (clean_step False out e)"
proof -
  obtain k rs where o: "out = replicate k ''..'' @ rs" and p: "list_all plain_elem rs"
    using assms by (rule dotdot_then_plainE)
  consider (skip) "e = [] \<or> e = ''.''" | (up) "e = ''..''" | (elem) "plain_elem e"
    by (auto simp: plain_elem_def)
  then show ?thesis
  proof cases
    case skip
    then show ?thesis using assms by (auto simp: clean_step_def)
  next
    case elem
    then have "clean_step False out e = replicate k ''..'' @ (rs @ [e])"
      using o by (simp add: clean_step_plain)
    moreover have "list_all plain_elem (rs @ [e])" using p elem by simp
    ultimately show ?thesis by (rule dotdot_then_plainI)
  next
    case up
    show ?thesis
    proof (cases "rs = []")
      case True
      then have "out = [] \<or> last out = ''..''" using o by (cases k) auto
      then have "clean_step False out e = replicate (Suc k) ''..'' @ []"
        using up o True by (auto simp: clean_step_def replicate_append_same)
      moreover have "list_all plain_elem []" by simp
      ultimately show ?thesis by (rule dotdot_then_plainI)
    next
      case False
      then have "last out = last rs" "last rs \<in> set rs" using o by simp_all
      then have "last out \<noteq> ''..''" using p by (auto simp: list_all_iff plain_elem_def)
      then have "clean_step False out e = replicate k ''..'' @ butlast rs"
        using up o False by (simp add: clean_step_def butlast_append)
      moreover have "list_all plain_elem (butlast rs)"
        using p by (auto simp: list_all_iff dest: in_set_butlastD)
      ultimately show ?thesis by (rule dotdot_then_plainI)
    qed
  qed
qed

lemma clean_step_keeps_elems:
  assumes "\<forall>x\<in>set out. x \<noteq> [] \<and> CHR ''/'' \<notin> set x" and "CHR ''/'' \<notin> set e"
  shows "\<forall>x\<in>set (clean_step r out e). x \<noteq> [] \<and> CHR ''/'' \<notin> set x"
  using assms by (auto simp: clean_step_def dest: in_set_butlastD)

lemma foldl_clean_step_form:
  assumes "dotdot_then_plain acc" and "\<forall>x\<in>set acc. x \<noteq> [] \<and> CHR ''/'' \<notin> set x"
      and "\<forall>e\<in>set cs. CHR ''/'' \<notin> set e"
  shows "dotdot_then_plain (foldl (clean_step False) acc cs)
       \<and> (\<forall>x\<in>set (foldl (clean_step False) acc cs). x \<noteq> [] \<and> CHR ''/'' \<notin> set x)"
  using assms
proof (induction cs arbitrary: acc)
  case Nil
  then show ?case by simp
next
  case (Cons c cs)
  have a: "dotdot_then_plain (clean_step False acc c)"
    using Cons.prems(1) by (rule clean_step_keeps_form)
  have "CHR ''/'' \<notin> set c" using Cons.prems(3) by simp
  with Cons.prems(2)
  have b: "\<forall>x\<in>set (clean_step False acc c). x \<noteq> [] \<and> CHR ''/'' \<notin> set x"
    by (rule clean_step_keeps_elems)
  have c: "\<forall>e\<in>set cs. CHR ''/'' \<notin> set e" using Cons.prems(3) by simp
  show ?case using Cons.IH [OF a b c] by simp
qed

lemma foldl_clean_step_dotdots:
  "foldl (clean_step False) (replicate m ''..'') (replicate k ''..'') = replicate (m + k) ''..''"
proof (induction k arbitrary: m)
  case 0
  then show ?case by simp
next
  case (Suc k)
  have "replicate m ''..'' = [] \<or> last (replicate m ''..'') = ''..''" by (cases m) auto
  then have "clean_step False (replicate m ''..'') ''..'' = replicate (Suc m) ''..''"
    by (auto simp: clean_step_def replicate_append_same)
  then show ?case using Suc [of "Suc m"] by simp
qed

lemma foldl_clean_step_fixed:
  assumes "dotdot_then_plain out"
  shows "foldl (clean_step False) [] out = out"
proof -
  obtain k rs where o: "out = replicate k ''..'' @ rs" and p: "list_all plain_elem rs"
    using assms by (rule dotdot_then_plainE)
  have "foldl (clean_step False) [] (replicate k ''..'') = replicate k ''..''"
    using foldl_clean_step_dotdots [of 0 k] by simp
  then show ?thesis
    using o p by (simp add: foldl_clean_step_plain list_all_iff)
qed

lemma Clean_then_Join:
  assumes "x \<noteq> []" and "hd x \<noteq> CHR ''/''" and "Clean x \<noteq> ''.''"
      and "plain_elem d" and "CHR ''/'' \<notin> set d"
  shows "path_Join [Clean x, d] = Clean x @ ''/'' @ d"
proof -
  let ?out = "foldl (clean_step False) [] (split_slash x)"
  have form: "dotdot_then_plain ?out \<and> (\<forall>e\<in>set ?out. e \<noteq> [] \<and> CHR ''/'' \<notin> set e)"
    using split_slash_slash_free [of _ x]
    by (intro foldl_clean_step_form) (simp_all add: dotdot_then_plain_def)
  have c: "Clean x = (if join_slash ?out = [] then ''.'' else join_slash ?out)"
    using assms(1,2) by (simp add: Clean_def Let_def)
  then have ne: "join_slash ?out \<noteq> []" using assms(3) by auto
  then have sp: "Clean x = join_slash ?out" using c by simp
  have out: "?out \<noteq> []" using ne by auto
  then obtain e es where oe: "?out = e # es" by (cases ?out) auto
  then have e: "e \<noteq> []" "CHR ''/'' \<notin> set e" using form by auto
  then have "hd e \<noteq> CHR ''/''" by (cases e) auto
  then have hd: "hd (join_slash ?out) \<noteq> CHR ''/''" using oe e by (simp add: hd_join_slash)
  have split: "split_slash (join_slash ?out) = ?out"
    using out form by (intro split_join_slash) auto
  have fixed: "foldl (clean_step False) [] ?out = ?out"
    using form by (intro foldl_clean_step_fixed) simp
  have "path_Join [join_slash ?out, d] = Clean (join_slash ?out @ CHR ''/'' # d)"
    using ne by (simp add: path_Join_def)
  also have "\<dots> = join_slash (?out @ [d])"
    using ne hd assms(4,5) split fixed by (simp add: Clean_snoc)
  also have "\<dots> = join_slash ?out @ ''/'' @ d"
    using out by (simp add: join_slash_snoc)
  finally show ?thesis using sp by simp
qed

lemma path_Join_then_Join:
  assumes "e \<noteq> []" and "hd e \<noteq> CHR ''/''" and "path_Join (e # es) \<noteq> ''.''"
      and "plain_elem d" and "CHR ''/'' \<notin> set d"
  shows "path_Join [path_Join (e # es), d] = path_Join (e # es) @ ''/'' @ d"
proof -
  have j: "path_Join (e # es) = Clean (join_slash (e # es))"
    using assms(1) by (simp add: path_Join_def)
  have "join_slash (e # es) \<noteq> []"
    using assms(1) by (simp add: join_slash_eq_Nil)
  moreover have "hd (join_slash (e # es)) \<noteq> CHR ''/''"
    using assms(1,2) by (simp add: hd_join_slash)
  moreover have "Clean (join_slash (e # es)) \<noteq> ''.''"
    using assms(3) j by simp
  ultimately have "path_Join [Clean (join_slash (e # es)), d] = Clean (join_slash (e # es)) @ ''/'' @ d"
    using assms(4,5) by (rule Clean_then_Join)
  then show ?thesis using j by simp
qed

subsection \<open>The paths that cleaning leaves as they are\<close>

text \<open>
  A path that begins with a plain path and is joined from further pieces is left as it
  is by \<^verbatim>\<open>path.Clean\<close> exactly when every piece is a plain path.
\<close>

lemma split_slash_append_slash:
  "split_slash (a @ CHR ''/'' # s) = split_slash a @ split_slash s"
proof (induction a)
  case Nil
  then show ?case by simp
next
  case (Cons c a)
  obtain e es where sp: "split_slash a = e # es"
    using split_slash_nonempty [of a] by (cases "split_slash a") auto
  show ?case using Cons sp by simp
qed

lemma split_join_slash_concat:
  "es \<noteq> [] \<Longrightarrow> split_slash (join_slash es) = concat (map split_slash es)"
proof (induction es rule: join_slash.induct)
  case 1
  then show ?case by simp
next
  case (2 e)
  then show ?case by simp
next
  case (3 e f es)
  then show ?case by (simp add: split_slash_append_slash)
qed

lemma plain_path_not_rooted: "plain_path e \<Longrightarrow> e \<noteq> [] \<and> hd e \<noteq> CHR ''/''"
  by (cases e) (auto simp: plain_path_def plain_elem_def split: list.splits)

lemma Clean_fixed_form:
  assumes "x \<noteq> []" and "hd x \<noteq> CHR ''/''" and "Clean x = x" and "x \<noteq> ''.''"
  shows "dotdot_then_plain (split_slash x)"
proof -
  let ?out = "foldl (clean_step False) [] (split_slash x)"
  have form: "dotdot_then_plain ?out \<and> (\<forall>e\<in>set ?out. e \<noteq> [] \<and> CHR ''/'' \<notin> set e)"
    using split_slash_slash_free [of _ x]
    by (intro foldl_clean_step_form) (simp_all add: dotdot_then_plain_def)
  have c: "Clean x = (if join_slash ?out = [] then ''.'' else join_slash ?out)"
    using assms(1,2) by (simp add: Clean_def Let_def)
  then have j: "join_slash ?out = x" using assms(3,4) by (auto split: if_splits)
  then have "?out \<noteq> []" using assms(1) by auto
  then have "split_slash (join_slash ?out) = ?out"
    using form by (intro split_join_slash) auto
  then have "split_slash x = ?out" using j by simp
  then show ?thesis using form by simp
qed

lemma Clean_join_plain_iff:
  assumes "plain_path e"
  shows "Clean (join_slash (e # es)) = join_slash (e # es) \<longleftrightarrow> (\<forall>x\<in>set es. plain_path x)"
proof
  assume "\<forall>x\<in>set es. plain_path x"
  then have "\<forall>x\<in>set (e # es). plain_path x" using assms by simp
  then have "path_Join (e # es) = join_slash (e # es)"
    by (intro path_Join_plain) simp_all
  then show "Clean (join_slash (e # es)) = join_slash (e # es)"
    using plain_path_not_rooted [OF assms] by (simp add: path_Join_def)
next
  let ?x = "join_slash (e # es)"
  assume fixed: "Clean ?x = ?x"
  have e: "e \<noteq> []" "hd e \<noteq> CHR ''/''" using plain_path_not_rooted [OF assms] by simp_all
  have ne: "?x \<noteq> []" using e by (simp add: join_slash_eq_Nil)
  have hd: "hd ?x \<noteq> CHR ''/''" using e by (simp add: hd_join_slash)
  have sp: "split_slash ?x = split_slash e @ concat (map split_slash es)"
    by (simp add: split_join_slash_concat)
  obtain f fs where f: "split_slash e = f # fs" "plain_elem f"
    using assms split_slash_nonempty [of e] by (cases "split_slash e") (auto simp: plain_path_def)
  have "split_slash ?x \<noteq> [''.'']"
    using sp f by (auto simp: plain_elem_def)
  then have "?x \<noteq> ''.''" by auto
  with ne hd fixed have "dotdot_then_plain (split_slash ?x)" by (intro Clean_fixed_form)
  moreover have "f \<noteq> ''..''" using f(2) by (simp add: plain_elem_def)
  ultimately have "list_all plain_elem (split_slash e @ concat (map split_slash es))"
    using sp f by (simp add: dotdot_then_plain_def)
  then show "\<forall>x\<in>set es. plain_path x"
    by (auto simp: plain_path_def list_all_iff)
qed

lemma path_Join_dot: 
  assumes "plain_elem d" and "CHR ''/'' \<notin> set d"
  shows "path_Join [''.'', d] = d"
proof -
  have "path_Join [''.'', d] = Clean (''.'' @ CHR ''/'' # d)" by (simp add: path_Join_def)
  also have "\<dots> = d" using assms by (subst Clean_snoc) (simp_all add: clean_step_def)
  finally show ?thesis .
qed

subsection \<open>Storage paths made by NewJob\<close>

lemma job_types_distinct:
  "PresubmitJob \<noteq> PeriodicJob" "PresubmitJob \<noteq> PostsubmitJob"
  "BatchJob \<noteq> PeriodicJob" "BatchJob \<noteq> PostsubmitJob" "BatchJob \<noteq> PresubmitJob"
  by (simp_all add: PresubmitJob_def PeriodicJob_def PostsubmitJob_def BatchJob_def)

lemma NewJob_StoragePath:
  assumes "jobType \<in> {PresubmitJob, PostsubmitJob, PeriodicJob, BatchJob}"
      and "snd (NewJob logFatalf jobName jobType repoName pullID) = Some j"
  shows "\<exists>e es. e \<noteq> [] \<and> hd e \<noteq> CHR ''/'' \<and> Job.StoragePath j = path_Join (e # es)"
proof -
  have "Job.StoragePath j = path_Join [''logs'', jobName]
      \<or> Job.StoragePath j = path_Join [''pr-logs'', ''pull'', OrgName @ ''_'' @ repoName, Itoa pullID, jobName]
      \<or> Job.StoragePath j = path_Join [''pr-logs'', ''pull'', ''batch'', jobName]"
    using assms by (auto simp: NewJob_def Let_def job_types_distinct)
  moreover have "''logs'' \<noteq> [] \<and> hd ''logs'' \<noteq> CHR ''/''" by simp
  moreover have "''pr-logs'' \<noteq> [] \<and> hd ''pr-logs'' \<noteq> CHR ''/''" by simp
  ultimately show ?thesis by blast
qed

subsection \<open>Joining behind a path that is already joined\<close>

lemma clean_step_rooted_keeps:
  assumes "list_all plain_elem out"
  shows "list_all plain_elem (clean_step True out e)"
proof -
  have "set (butlast out) \<subseteq> set out" by (auto dest: in_set_butlastD)
  then show ?thesis
    using assms by (auto simp: clean_step_def list_all_iff plain_elem_def)
qed

lemma foldl_clean_step_rooted:
  "list_all plain_elem acc \<Longrightarrow> list_all plain_elem (foldl (clean_step True) acc cs)"
proof (induction cs arbitrary: acc)
  case Nil
  then show ?case by simp
next
  case (Cons c cs)
  have "list_all plain_elem (clean_step True acc c)"
    using Cons.prems by (rule clean_step_rooted_keeps)
  then show ?case using Cons.IH by simp
qed

lemma foldl_clean_step_elems:
  assumes "\<forall>x\<in>set acc. x \<noteq> [] \<and> CHR ''/'' \<notin> set x" and "\<forall>e\<in>set cs. CHR ''/'' \<notin> set e"
  shows "\<forall>x\<in>set (foldl (clean_step r) acc cs). x \<noteq> [] \<and> CHR ''/'' \<notin> set x"
  using assms
proof (induction cs arbitrary: acc)
  case Nil
  then show ?case by simp
next
  case (Cons c cs)
  have "CHR ''/'' \<notin> set c" using Cons.prems(2) by simp
  with Cons.prems(1)
  have b: "\<forall>x\<in>set (clean_step r acc c). x \<noteq> [] \<and> CHR ''/'' \<notin> set x"
    by (rule clean_step_keeps_elems)
  have c: "\<forall>e\<in>set cs. CHR ''/'' \<notin> set e" using Cons.prems(2) by simp
  show ?case using Cons.IH [OF b c] by simp
qed

text \<open>What \<^verbatim>\<open>path.Clean\<close> has written of any path is left as it is when cleaned again.\<close>

lemma cleaned_elems_fixed:
  "foldl (clean_step r) [] (foldl (clean_step r) [] (split_slash p))
     = foldl (clean_step r) [] (split_slash p)"
  "\<forall>x\<in>set (foldl (clean_step r) [] (split_slash p)). x \<noteq> [] \<and> CHR ''/'' \<notin> set x"
proof -
  define out where "out = foldl (clean_step r) [] (split_slash p)"
  have sf: "\<forall>e\<in>set (split_slash p). CHR ''/'' \<notin> set e"
    using split_slash_slash_free [of _ p] by blast
  show "\<forall>x\<in>set (foldl (clean_step r) [] (split_slash p)). x \<noteq> [] \<and> CHR ''/'' \<notin> set x"
    using sf by (intro foldl_clean_step_elems) simp_all
  have "foldl (clean_step r) [] out = out"
  proof (cases r)
    case True
    have "list_all plain_elem (foldl (clean_step True) [] (split_slash p))"
      by (rule foldl_clean_step_rooted) simp
    then have "list_all plain_elem out" using True by (simp add: out_def)
    then show ?thesis
      using foldl_clean_step_plain [of out r "[]"] by (simp add: list_all_iff)
  next
    case False
    have "dotdot_then_plain (foldl (clean_step False) [] (split_slash p))"
      using sf
      by (intro foldl_clean_step_form [THEN conjunct1]) (simp_all add: dotdot_then_plain_def)
    then have "dotdot_then_plain out" using False by (simp add: out_def)
    then have "foldl (clean_step False) [] out = out" by (rule foldl_clean_step_fixed)
    then show ?thesis using False by simp
  qed
  then show "foldl (clean_step r) [] (foldl (clean_step r) [] (split_slash p))
     = foldl (clean_step r) [] (split_slash p)"
    unfolding out_def .
qed

lemma path_Join_pair: "x \<noteq> [] \<Longrightarrow> path_Join [x, f] = Clean (x @ CHR ''/'' # f)"
  by (simp add: path_Join_def)

text \<open>
  Behind a directory and a plain name, a second plain name is joined as it is written:
  the first join has cleaned all there is to clean.
\<close>

lemma path_Join_file_literal:
  assumes d: "plain_elem d" "CHR ''/'' \<notin> set d" and f: "plain_elem f" "CHR ''/'' \<notin> set f"
  shows "path_Join [path_Join [dir, d], f] = path_Join [dir, d] @ ''/'' @ f"
proof (cases "dir = []")
  case True
  have dn: "d \<noteq> []" using d(1) by (simp add: plain_elem_def)
  have "Clean (join_slash [d]) = join_slash [d]"
    using d by (intro Clean_plain_elems) simp_all
  then have x: "path_Join [dir, d] = d" using True dn by (simp add: path_Join_def)
  have "Clean (join_slash [d, f]) = join_slash [d, f]"
    using d f by (intro Clean_plain_elems) simp_all
  then have "path_Join [d, f] = d @ ''/'' @ f" using dn by (simp add: path_Join_def)
  then show ?thesis using x by simp
next
  case False
  let ?r = "hd dir = CHR ''/''"
  let ?pre = "if ?r then ''/'' else []"
  let ?out = "foldl (clean_step ?r) [] (split_slash dir)"
  let ?x = "?pre @ join_slash (?out @ [d])"
  have dn: "d \<noteq> []" using d(1) by (simp add: plain_elem_def)
  have fixed: "foldl (clean_step ?r) [] ?out = ?out"
    and elems: "\<forall>x\<in>set ?out. x \<noteq> [] \<and> CHR ''/'' \<notin> set x"
    by (rule cleaned_elems_fixed)+
  have elems': "\<forall>x\<in>set (?out @ [d]). x \<noteq> [] \<and> CHR ''/'' \<notin> set x"
    using elems d(2) dn by simp
  have x: "path_Join [dir, d] = ?x"
    using False d by (simp add: path_Join_def Clean_snoc)
  have jn: "join_slash (?out @ [d]) \<noteq> []" using dn by (simp add: join_slash_snoc)
  then have xn: "?x \<noteq> []" by simp
  have hdj: "hd (join_slash (?out @ [d])) \<noteq> CHR ''/''"
  proof -
    obtain e es where oe: "?out @ [d] = e # es" by (cases "?out @ [d]") auto
    then have "e \<in> set (?out @ [d])" by simp
    then have e: "e \<noteq> []" "CHR ''/'' \<notin> set e" using elems' by blast+
    then have "hd e \<noteq> CHR ''/''" by (cases e) auto
    then show ?thesis unfolding oe using e by (simp add: hd_join_slash)
  qed
  have hdx: "(hd ?x = CHR ''/'') = ?r"
  proof (cases ?r)
    case True
    then show ?thesis by simp
  next
    case False
    then show ?thesis using hdj jn by simp
  qed
  have sp: "split_slash (join_slash (?out @ [d])) = ?out @ [d]"
    using elems' by (intro split_join_slash) auto
  have fold: "foldl (clean_step ?r) [] (split_slash ?x) = ?out @ [d]"
  proof (cases ?r)
    case True
    then have "split_slash ?x = [] # (?out @ [d])" using sp by simp
    then have "foldl (clean_step ?r) [] (split_slash ?x) = foldl (clean_step ?r) [] (?out @ [d])"
      by (simp add: clean_step_def)
    then show ?thesis using fixed d(1) by (simp add: clean_step_plain)
  next
    case False
    then have "split_slash ?x = ?out @ [d]" using sp by simp
    then show ?thesis using fixed d(1) by (simp add: clean_step_plain)
  qed
  have "path_Join [?x, f] = Clean (?x @ CHR ''/'' # f)"
    using xn by (rule path_Join_pair)
  also have "\<dots> = (if hd ?x = CHR ''/'' then ''/'' else [])
             @ join_slash (foldl (clean_step (hd ?x = CHR ''/'')) [] (split_slash ?x) @ [f])"
    using xn f by (rule Clean_snoc)
  also have "\<dots> = ?pre @ join_slash ((?out @ [d]) @ [f])"
    unfolding hdx fold ..
  also have "\<dots> = ?x @ ''/'' @ f"
    by (simp add: join_slash_snoc del: append_assoc)
  finally show ?thesis unfolding x .
qed

lemma Job_NewBuild_finished_marker:
  "path_Join [Build.StoragePath (Job_NewBuild j buildID), FinishedJSON]
     = Build.StoragePath (Job_NewBuild j buildID) @ ''/finished.json''"
proof -
  have "path_Join [path_Join [Job.StoragePath j, Itoa buildID], FinishedJSON]
          = path_Join [Job.StoragePath j, Itoa buildID] @ ''/'' @ FinishedJSON"
    using Itoa_plain_elem Itoa_slash_free plain_file_names(1,2) by (rule path_Join_file_literal)
  then show ?thesis by (simp add: Job_NewBuild_def FinishedJSON_def)
qed

subsection \<open>Reading back a decimal rendering\<close>

lemma digit_val_digit_char_upto: "\<forall>d\<in>set [0..<10]. digit_val (digit_char d) = Some d"
  by code_simp

lemma digit_val_digit_char: "d < 10 \<Longrightarrow> digit_val (digit_char d) = Some d"
  using digit_val_digit_char_upto by simp

lemma parse_digits_append:
  "parse_digits n (xs @ ys) = (case parse_digits n xs of Inl e \<Rightarrow> Inl e | Inr m \<Rightarrow> parse_digits m ys)"
  by (induction xs arbitrary: n) (auto split: option.splits)

lemma parse_digits_digits: "n \<le> maxUint64 \<Longrightarrow> parse_digits 0 (digits n) = Inr n"
proof (induction n rule: digits.induct)
  case (1 n)
  show ?case
  proof (cases "n < 10")
    case True
    then show ?thesis
      using 1(2) by (subst digits.simps) (simp add: digit_val_digit_char)
  next
    case False
    have "n div 10 \<le> maxUint64" using 1(2) by simp
    then have ih: "parse_digits 0 (digits (n div 10)) = Inr (n div 10)"
      using 1(1) False by simp
    have d: "digit_val (digit_char (n mod 10)) = Some (n mod 10)"
      by (rule digit_val_digit_char) simp
    have "n div 10 * 10 + n mod 10 = n" by simp
    then show ?thesis
      using False ih d 1(2) by (subst digits.simps) (simp add: parse_digits_append)
  qed
qed

lemma hd_digits: "hd (digits n) \<in> set ''0123456789''"
  using digits_chars [of n] digits_nonempty [of n] hd_in_set by blast

lemma hd_digits_no_sign: "hd (digits n) \<noteq> CHR ''-''" "hd (digits n) \<noteq> CHR ''+''"
  using hd_digits [of n] by auto

lemma Atoi_Itoa:
  assumes "- (2 ^ 63) \<le> i" and "i < 2 ^ 63"
  shows "Atoi (Itoa i) = Inr i"
proof (cases "i < 0")
  case True
  have "nat (- i) \<le> 2 ^ 63" using assms(1) True by simp
  moreover have "(2::nat) ^ 63 \<le> maxUint64" by (simp add: maxUint64_def)
  ultimately have "parse_digits 0 (digits (nat (- i))) = Inr (nat (- i))"
    using parse_digits_digits [of "nat (- i)"] by simp
  then show ?thesis
    using True assms(1) by (simp add: Atoi_def Itoa_def digits_nonempty)
next
  case False
  have b: "nat i < 2 ^ 63" using assms(2) False by simp
  moreover have "(2::nat) ^ 63 \<le> maxUint64" by (simp add: maxUint64_def)
  ultimately have "parse_digits 0 (digits (nat i)) = Inr (nat i)"
    using parse_digits_digits [of "nat i"] by simp
  then show ?thesis
    using False b by (simp add: Atoi_def Itoa_def digits_nonempty hd_digits_no_sign)
qed

lemma hd_digits_nonzero_upto: "\<forall>n\<in>set [1..<10]. hd (digits n) \<noteq> CHR ''0''"
  by code_simp

lemma hd_digits_nonzero: "0 < n \<Longrightarrow> hd (digits n) \<noteq> CHR ''0''"
proof (induction n rule: digits.induct)
  case (1 n)
  show ?case
  proof (cases "n < 10")
    case True
    with 1(2) show ?thesis
      using hd_digits_nonzero_upto by simp
  next
    case False
    then have "hd (digits (n div 10)) \<noteq> CHR ''0''" using 1(1) by simp
    then show ?thesis
      using False by (subst digits.simps) (simp add: digits_nonempty)
  qed
qed

subsection \<open>The last element of a listed path\<close>

lemma last_Itoa: "last (Itoa i) \<notin> set '' /''"
proof -
  have "last (Itoa i) \<in> set (Itoa i)" by (simp add: Itoa_nonempty)
  then have "last (Itoa i) \<in> set ''-0123456789''" using Itoa_chars [of i] by (rule set_mp [rotated])
  then show ?thesis by auto
qed

lemma TrimRight_keeps: "s \<noteq> [] \<Longrightarrow> last s \<notin> set cutset \<Longrightarrow> TrimRight (pre @ s) cutset = pre @ s"
  by (cases s rule: rev_cases) (simp_all add: TrimRight_def)

lemma TrimRight_slashes:
  assumes "s \<noteq> []" and "last s \<notin> set '' /''"
  shows "TrimRight (pre @ s @ replicate k (CHR ''/'')) '' /'' = pre @ s"
proof -
  have "TrimRight (pre @ s @ replicate k (CHR ''/'')) '' /'' = TrimRight (pre @ s) '' /''"
    by (simp add: TrimRight_def dropWhile_replicate)
  then show ?thesis using assms by (simp add: TrimRight_keeps)
qed

lemma path_Split_file:
  "CHR ''/'' \<notin> set s \<Longrightarrow> snd (path_Split (dir @ ''/'' @ s)) = s"
  "CHR ''/'' \<notin> set s \<Longrightarrow> snd (path_Split s) = s"
proof -
  assume s: "CHR ''/'' \<notin> set s"
  have a: "takeWhile (\<lambda>c. c \<noteq> CHR ''/'') (rev s) = rev s"
    using s
    by (auto simp: takeWhile_eq_all_conv)
  show "snd (path_Split s) = s" unfolding path_Split_def Let_def a by simp
  have "takeWhile (\<lambda>c. c \<noteq> CHR ''/'') (rev s @ CHR ''/'' # rev dir) = rev s"
    using s by (subst takeWhile_append2) auto
  then show "snd (path_Split (dir @ ''/'' @ s)) = s" by (simp add: path_Split_def Let_def)
qed

lemma getBuildIDFromBuildPath_Itoa:
  assumes "- (2 ^ 63) \<le> i" and "i < 2 ^ 63"
  shows "getBuildIDFromBuildPath (Itoa i) = Inr i"
    and "getBuildIDFromBuildPath (dir @ ''/'' @ Itoa i @ replicate k (CHR ''/'')) = Inr i"
proof -
  have "TrimRight ([] @ Itoa i) '' /'' = [] @ Itoa i"
    using Itoa_nonempty last_Itoa by (rule TrimRight_keeps)
  then show "getBuildIDFromBuildPath (Itoa i) = Inr i"
    using assms by (simp add: getBuildIDFromBuildPath_def path_Split_file Itoa_slash_free Atoi_Itoa)
  have "TrimRight ((dir @ ''/'') @ Itoa i @ replicate k (CHR ''/'')) '' /'' = (dir @ ''/'') @ Itoa i"
    using Itoa_nonempty last_Itoa by (rule TrimRight_slashes)
  then show "getBuildIDFromBuildPath (dir @ ''/'' @ Itoa i @ replicate k (CHR ''/'')) = Inr i"
    using assms path_Split_file(1) [of "Itoa i" dir]
    by (simp add: getBuildIDFromBuildPath_def Itoa_slash_free Atoi_Itoa)
qed

text \<open>Which strings \<^verbatim>\<open>strconv.Atoi\<close> and \<^verbatim>\<open>getBuildIDFromBuildPath\<close> accept, and with what value.\<close>

lemma digit_chars_upto: "\<forall>b\<in>set [48..<58]. char_of (b::nat) \<in> set ''0123456789''"
  by code_simp

lemma digit_codes: "\<forall>c\<in>set ''0123456789''. 48 \<le> (of_char c :: nat) \<and> (of_char c :: nat) \<le> 57"
  by simp

lemma digit_val_iff:
  "digit_val c = Some d \<longleftrightarrow> c \<in> set ''0123456789'' \<and> d = of_char c - 48"
proof -
  have a: "c \<in> set ''0123456789''" if "48 \<le> (of_char c :: nat)" "(of_char c :: nat) \<le> 57"
  proof -
    have "(of_char c :: nat) \<in> {48..<58}" using that by simp
    then have "(of_char c :: nat) \<in> set [48..<58]" by (simp only: set_upt)
    then have "char_of (of_char c :: nat) \<in> set ''0123456789''" using digit_chars_upto by blast
    then show ?thesis by simp
  qed
  have b: "48 \<le> (of_char c :: nat) \<and> (of_char c :: nat) \<le> 57" if "c \<in> set ''0123456789''"
    using that digit_codes by blast
  show ?thesis
    using a b by (auto simp: digit_val_def Let_def)
qed

lemma digit_val_None: "digit_val c = None \<longleftrightarrow> c \<notin> set ''0123456789''"
proof
  assume n: "digit_val c = None"
  show "c \<notin> set ''0123456789''"
  proof
    assume "c \<in> set ''0123456789''"
    then have "digit_val c = Some (of_char c - 48)" by (simp only: digit_val_iff simp_thms)
    then show False using n by simp
  qed
next
  assume n: "c \<notin> set ''0123456789''"
  show "digit_val c = None"
  proof (cases "digit_val c")
    case None
    then show ?thesis .
  next
    case (Some d)
    then have "c \<in> set ''0123456789''" by (simp only: digit_val_iff)
    with n show ?thesis by (rule notE)
  qed
qed

lemma foldl_decimal_mono: "a \<le> foldl (\<lambda>v c. 10 * v + (of_char c - 48)) (a::nat) ds"
proof (induction ds arbitrary: a)
  case Nil
  then show ?case by simp
next
  case (Cons c ds)
  have "a \<le> 10 * a + (of_char c - 48)" by simp
  also have "\<dots> \<le> foldl (\<lambda>v c. 10 * v + (of_char c - 48)) (10 * a + (of_char c - 48)) ds"
    by (rule Cons.IH)
  finally show ?case by simp
qed

lemma parse_digits_iff:
  "parse_digits a ds = Inr v \<longleftrightarrow>
     set ds \<subseteq> set ''0123456789'' \<and> v = foldl (\<lambda>v c. 10 * v + (of_char c - 48)) a ds
     \<and> (ds \<noteq> [] \<longrightarrow> v \<le> maxUint64)"
proof (induction ds arbitrary: a)
  case Nil
  then show ?case by auto
next
  case (Cons c cs)
  let ?f = "\<lambda>v c. 10 * v + (of_char c - 48 :: nat)"
  let ?D = "set ''0123456789''"
  have sub: "set (c # cs) \<subseteq> ?D \<longleftrightarrow> c \<in> ?D \<and> set cs \<subseteq> ?D"
    by (simp only: set_simps insert_subset)
  have fold: "foldl ?f a (c # cs) = foldl ?f (?f a c) cs" by simp
  show ?case
  proof (cases "c \<in> ?D")
    case False
    then have "digit_val c = None" by (rule iffD2 [OF digit_val_None])
    then have "parse_digits a (c # cs) = Inl ErrSyntax" by simp
    then show ?thesis unfolding sub using False by simp
  next
    case True
    then have dv: "digit_val c = Some (of_char c - 48)" by (simp only: digit_val_iff simp_thms)
    have mono: "?f a c \<le> foldl ?f (?f a c) cs" by (rule foldl_decimal_mono)
    show ?thesis
    proof (cases "?f a c > maxUint64")
      case over: True
      then have p: "parse_digits a (c # cs) = Inl ErrRange" using dv by (simp add: mult.commute)
      have "\<not> foldl ?f (?f a c) cs \<le> maxUint64" using over mono by linarith
      then show ?thesis unfolding sub fold p by simp
    next
      case fits: False
      then have p: "parse_digits a (c # cs) = parse_digits (?f a c) cs"
        using dv by (simp add: mult.commute)
      show ?thesis
      proof (cases "cs = []")
        case True
        then show ?thesis unfolding sub fold p using \<open>c \<in> ?D\<close> fits by auto
      next
        case False
        then show ?thesis
          unfolding sub fold p Cons.IH [of "?f a c"] using \<open>c \<in> ?D\<close> by simp
      qed
    qed
  qed
qed

lemma parse_digits_decimal:
  "parse_digits 0 ds = Inr v \<longleftrightarrow>
     set ds \<subseteq> set ''0123456789'' \<and> v = decimal_value ds \<and> (ds \<noteq> [] \<longrightarrow> v \<le> maxUint64)"
  by (simp add: parse_digits_iff decimal_value_def)

lemma magnitude_iff:
  "(if ds = [] then Inl ErrSyntax
    else (case parse_digits 0 ds of
            Inl e \<Rightarrow> Inl e
          | Inr un \<Rightarrow>
              if \<not> neg \<and> un \<ge> 2 ^ 63 then Inl ErrRange
              else if neg \<and> un > 2 ^ 63 then Inl ErrRange
              else Inr (if neg then - int un else int un))) = Inr n
   \<longleftrightarrow> ds \<noteq> [] \<and> set ds \<subseteq> set ''0123456789''
       \<and> n = (if neg then - int (decimal_value ds) else int (decimal_value ds))
       \<and> - (2 ^ 63) \<le> n \<and> n < 2 ^ 63"
proof (cases "ds = []")
  case True
  then show ?thesis by simp
next
  case ne: False
  show ?thesis
  proof (cases "parse_digits 0 ds")
    case (Inl e)
    have "\<not> (set ds \<subseteq> set ''0123456789'' \<and> decimal_value ds \<le> maxUint64)"
      using Inl ne parse_digits_decimal [of ds "decimal_value ds"] by simp
    then have "set ds \<subseteq> set ''0123456789'' \<Longrightarrow> 2 ^ 64 \<le> decimal_value ds"
      by (simp add: maxUint64_def)
    then have "\<not> (set ds \<subseteq> set ''0123456789''
       \<and> - (2 ^ 63) \<le> (if neg then - int (decimal_value ds) else int (decimal_value ds))
       \<and> (if neg then - int (decimal_value ds) else int (decimal_value ds)) < 2 ^ 63)"
      by (cases neg) auto
    then show ?thesis using Inl ne by auto
  next
    case (Inr un)
    then have d: "set ds \<subseteq> set ''0123456789''" and un: "un = decimal_value ds"
      using parse_digits_decimal [of ds un] by simp_all
    show ?thesis
      unfolding if_not_P [OF ne] Inr sum.case using d ne un by (cases neg) auto
  qed
qed

lemma Atoi_minus:
  "Atoi (CHR ''-'' # r) = Inr n \<longleftrightarrow>
     r \<noteq> [] \<and> set r \<subseteq> set ''0123456789'' \<and> n = - int (decimal_value r)
     \<and> - (2 ^ 63) \<le> n \<and> n < 2 ^ 63"
  using magnitude_iff [of r True n] by (simp add: Atoi_def Let_def)

lemma Atoi_plus:
  "Atoi (CHR ''+'' # r) = Inr n \<longleftrightarrow>
     r \<noteq> [] \<and> set r \<subseteq> set ''0123456789'' \<and> n = int (decimal_value r)
     \<and> - (2 ^ 63) \<le> n \<and> n < 2 ^ 63"
  using magnitude_iff [of r False n] by (simp add: Atoi_def Let_def)

lemma Atoi_unsigned:
  assumes "c = [] \<or> (hd c \<noteq> CHR ''-'' \<and> hd c \<noteq> CHR ''+'')"
  shows "Atoi c = Inr n \<longleftrightarrow>
     c \<noteq> [] \<and> set c \<subseteq> set ''0123456789'' \<and> n = int (decimal_value c)
     \<and> - (2 ^ 63) \<le> n \<and> n < 2 ^ 63"
proof (cases c)
  case Nil
  then show ?thesis by (simp add: Atoi_def)
next
  case (Cons x r)
  then have x: "x \<noteq> CHR ''-''" "x \<noteq> CHR ''+''" using assms by simp_all
  show ?thesis
    using magnitude_iff [of "x # r" False n] x unfolding Cons by (simp add: Atoi_def Let_def)
qed

lemma digits_no_sign:
  assumes "ds \<noteq> []" and "set ds \<subseteq> set ''0123456789''"
  shows "hd ds \<noteq> CHR ''-'' \<and> hd ds \<noteq> CHR ''+''"
proof -
  have "hd ds \<in> set ''0123456789''" using assms by (cases ds) simp_all
  then show ?thesis by auto
qed

lemma Atoi_iff:
  "Atoi c = Inr n \<longleftrightarrow>
     (\<exists>sign ds. c = sign @ ds \<and> sign \<in> {[], ''+'', ''-''} \<and> ds \<noteq> []
        \<and> set ds \<subseteq> set ''0123456789''
        \<and> n = (if sign = ''-'' then - int (decimal_value ds) else int (decimal_value ds))
        \<and> - (2 ^ 63) \<le> n \<and> n < 2 ^ 63)"
  (is "?L \<longleftrightarrow> ?R")
proof
  assume l: ?L
  show ?R
  proof (cases "c = [] \<or> (hd c \<noteq> CHR ''-'' \<and> hd c \<noteq> CHR ''+'')")
    case True
    from l have "c \<noteq> [] \<and> set c \<subseteq> set ''0123456789'' \<and> n = int (decimal_value c)
        \<and> - (2 ^ 63) \<le> n \<and> n < 2 ^ 63"
      by (rule iffD1 [OF Atoi_unsigned [OF True]])
    then have "c = [] @ c \<and> [] \<in> {[], ''+'', ''-''} \<and> c \<noteq> []
        \<and> set c \<subseteq> set ''0123456789''
        \<and> n = (if [] = ''-'' then - int (decimal_value c) else int (decimal_value c))
        \<and> - (2 ^ 63) \<le> n \<and> n < 2 ^ 63"
      by simp
    then show ?thesis by blast
  next
    case False
    then obtain r where "c = CHR ''-'' # r \<or> c = CHR ''+'' # r" by (cases c) auto
    then show ?thesis
    proof
      assume c: "c = CHR ''-'' # r"
      from l [unfolded c] have "r \<noteq> [] \<and> set r \<subseteq> set ''0123456789'' \<and> n = - int (decimal_value r)
         \<and> - (2 ^ 63) \<le> n \<and> n < 2 ^ 63"
        by (rule iffD1 [OF Atoi_minus])
      then have "c = ''-'' @ r \<and> ''-'' \<in> {[], ''+'', ''-''} \<and> r \<noteq> []
        \<and> set r \<subseteq> set ''0123456789''
        \<and> n = (if ''-'' = ''-'' then - int (decimal_value r) else int (decimal_value r))
        \<and> - (2 ^ 63) \<le> n \<and> n < 2 ^ 63"
        using c by simp
      then show ?thesis by blast
    next
      assume c: "c = CHR ''+'' # r"
      from l [unfolded c] have "r \<noteq> [] \<and> set r \<subseteq> set ''0123456789'' \<and> n = int (decimal_value r)
         \<and> - (2 ^ 63) \<le> n \<and> n < 2 ^ 63"
        by (rule iffD1 [OF Atoi_plus])
      then have "c = ''+'' @ r \<and> ''+'' \<in> {[], ''+'', ''-''} \<and> r \<noteq> []
        \<and> set r \<subseteq> set ''0123456789''
        \<and> n = (if ''+'' = ''-'' then - int (decimal_value r) else int (decimal_value r))
        \<and> - (2 ^ 63) \<le> n \<and> n < 2 ^ 63"
        using c by simp
      then show ?thesis by blast
    qed
  qed
next
  assume ?R
  then obtain sign ds where c: "c = sign @ ds" and s: "sign = [] \<or> sign = ''+'' \<or> sign = ''-''"
    and ne: "ds \<noteq> []" and d: "set ds \<subseteq> set ''0123456789''"
    and n: "n = (if sign = ''-'' then - int (decimal_value ds) else int (decimal_value ds))"
    and r: "- (2 ^ 63) \<le> n" "n < 2 ^ 63"
    by blast
  from s show ?L
  proof (elim disjE)
    assume e: "sign = []"
    have "ds = [] \<or> (hd ds \<noteq> CHR ''-'' \<and> hd ds \<noteq> CHR ''+'')"
      using digits_no_sign [OF ne d] by simp
    then show ?thesis unfolding c e using ne d n r e by (simp add: Atoi_unsigned)
  next
    assume e: "sign = ''+''"
    show ?thesis unfolding c e using ne d n r e by (simp add: Atoi_plus)
  next
    assume e: "sign = ''-''"
    show ?thesis unfolding c e using ne d n r e by (simp add: Atoi_minus)
  qed
qed

lemma TrimRight_decomp:
  "\<exists>trail. p = TrimRight p cutset @ trail \<and> set trail \<subseteq> set cutset"
proof -
  let ?P = "\<lambda>c. c \<in> set cutset"
  have "rev (dropWhile ?P (rev p)) @ rev (takeWhile ?P (rev p))
          = rev (takeWhile ?P (rev p) @ dropWhile ?P (rev p))"
    by (simp only: rev_append)
  also have "\<dots> = p" by (simp only: takeWhile_dropWhile_id rev_rev_ident)
  finally have a: "p = TrimRight p cutset @ rev (takeWhile ?P (rev p))"
    by (simp only: TrimRight_def)
  have "set (rev (takeWhile ?P (rev p))) \<subseteq> set cutset"
    using set_takeWhileD [of _ ?P "rev p"] by auto
  with a show ?thesis by blast
qed

lemma TrimRight_append_trail:
  assumes "set trail \<subseteq> set cutset" and "x = [] \<or> last x \<notin> set cutset"
  shows "TrimRight (x @ trail) cutset = x"
proof -
  let ?P = "\<lambda>c. c \<in> set cutset"
  have "\<And>c. c \<in> set (rev trail) \<Longrightarrow> ?P c" using assms(1) by auto
  then have "dropWhile ?P (rev trail @ rev x) = dropWhile ?P (rev x)"
    by (rule dropWhile_append2)
  moreover have "dropWhile ?P (rev x) = rev x"
    using assms(2) by (cases x rule: rev_cases) simp_all
  ultimately show ?thesis by (simp add: TrimRight_def)
qed

lemma path_Split_decomp:
  "\<exists>dir. s = dir @ snd (path_Split s) \<and> CHR ''/'' \<notin> set (snd (path_Split s))
      \<and> (dir = [] \<or> last dir = CHR ''/'')"
proof -
  let ?P = "\<lambda>c. c \<noteq> CHR ''/''"
  let ?dir = "rev (dropWhile ?P (rev s))"
  have f: "snd (path_Split s) = rev (takeWhile ?P (rev s))" by (simp add: path_Split_def Let_def)
  have "?dir @ rev (takeWhile ?P (rev s)) = rev (takeWhile ?P (rev s) @ dropWhile ?P (rev s))"
    by (simp only: rev_append)
  also have "\<dots> = s" by (simp only: takeWhile_dropWhile_id rev_rev_ident)
  finally have a: "s = ?dir @ snd (path_Split s)" by (simp only: f)
  have b: "CHR ''/'' \<notin> set (snd (path_Split s))"
    unfolding f using set_takeWhileD [of "CHR ''/''" ?P "rev s"] by auto
  have c: "?dir = [] \<or> last ?dir = CHR ''/''"
  proof (cases "dropWhile ?P (rev s) = []")
    case True
    then show ?thesis by simp
  next
    case False
    then have "\<not> ?P (hd (dropWhile ?P (rev s)))" by (rule hd_dropWhile)
    then show ?thesis using False by (simp add: last_rev)
  qed
  from a b c show ?thesis by blast
qed

lemma path_Split_last_component:
  assumes "CHR ''/'' \<notin> set f" and "dir = [] \<or> last dir = CHR ''/''"
  shows "snd (path_Split (dir @ f)) = f"
proof (cases dir rule: rev_cases)
  case Nil
  then show ?thesis using assms(1) by (simp add: path_Split_file)
next
  case (snoc d c)
  then have "dir = d @ ''/''" using assms(2) by simp
  then show ?thesis using path_Split_file(1) [OF assms(1), of d] by simp
qed

lemma getBuildIDFromBuildPath_iff:
  "getBuildIDFromBuildPath p = Inr n \<longleftrightarrow>
     (\<exists>dir sign ds trail.
        p = dir @ sign @ ds @ trail
        \<and> (dir = [] \<or> last dir = CHR ''/'')
        \<and> sign \<in> {[], ''+'', ''-''}
        \<and> ds \<noteq> [] \<and> set ds \<subseteq> set ''0123456789''
        \<and> set trail \<subseteq> set '' /''
        \<and> n = (if sign = ''-'' then - int (decimal_value ds) else int (decimal_value ds))
        \<and> - (2 ^ 63) \<le> n \<and> n < 2 ^ 63)"
  (is "?L \<longleftrightarrow> ?R")
proof
  assume l: ?L
  obtain trail where t: "p = TrimRight p '' /'' @ trail" "set trail \<subseteq> set '' /''"
    using TrimRight_decomp [of p "'' /''"] by blast
  obtain dir where d: "TrimRight p '' /'' = dir @ snd (path_Split (TrimRight p '' /''))"
      "dir = [] \<or> last dir = CHR ''/''"
    using path_Split_decomp [of "TrimRight p '' /''"] by blast
  from l have "Atoi (snd (path_Split (TrimRight p '' /''))) = Inr n"
    by (simp add: getBuildIDFromBuildPath_def)
  then obtain sign ds where a: "snd (path_Split (TrimRight p '' /'')) = sign @ ds"
      "sign \<in> {[], ''+'', ''-''}" "ds \<noteq> []" "set ds \<subseteq> set ''0123456789''"
      "n = (if sign = ''-'' then - int (decimal_value ds) else int (decimal_value ds))"
      "- (2 ^ 63) \<le> n" "n < 2 ^ 63"
    unfolding Atoi_iff by blast
  have "p = dir @ sign @ ds @ trail" using t(1) d(1) a(1) by simp
  with t(2) d(2) a(2-) show ?R by blast
next
  assume ?R
  then obtain dir sign ds trail where p: "p = dir @ sign @ ds @ trail"
      and dir: "dir = [] \<or> last dir = CHR ''/''"
      and s: "sign \<in> {[], ''+'', ''-''}"
      and ne: "ds \<noteq> []" and ds: "set ds \<subseteq> set ''0123456789''"
      and t: "set trail \<subseteq> set '' /''"
      and n: "n = (if sign = ''-'' then - int (decimal_value ds) else int (decimal_value ds))"
      and r: "- (2 ^ 63) \<le> n" "n < 2 ^ 63"
    by blast
  have "last ds \<in> set ''0123456789''" using ne ds last_in_set by blast
  then have "last ds \<notin> set '' /''" by auto
  then have "last (dir @ sign @ ds) \<notin> set '' /''" using ne by simp
  then have "TrimRight ((dir @ sign @ ds) @ trail) '' /'' = dir @ sign @ ds"
    using t by (intro TrimRight_append_trail) simp_all
  then have trim: "TrimRight p '' /'' = dir @ (sign @ ds)" unfolding p by simp
  have "CHR ''/'' \<notin> set ds" using ds by auto
  then have "CHR ''/'' \<notin> set (sign @ ds)" using s by auto
  then have "snd (path_Split (dir @ (sign @ ds))) = sign @ ds"
    using dir by (rule path_Split_last_component)
  moreover have "Atoi (sign @ ds) = Inr n"
    unfolding Atoi_iff using s ne ds n r by blast
  ultimately show ?L by (simp add: getBuildIDFromBuildPath_def trim)
qed

subsection \<open>The loops as maps and filters\<close>

lemma GetBuilds_loop_eq:
  "GetBuilds_loop j ps builds =
     builds @ map (Job_NewBuild j)
       (List.map_filter (\<lambda>p. case getBuildIDFromBuildPath p of Inl err \<Rightarrow> None | Inr buildID \<Rightarrow> Some buildID) ps)"
  by (induction ps arbitrary: builds) (auto simp: List.map_filter_simps split: sum.splits)



lemma scan_loop_eq:
  "scan_loop checkLog ls logs = logs @ List.map_filter (\<lambda>text. checkLog (Fields text)) ls"
  by (induction ls arbitrary: logs) (auto simp: List.map_filter_simps split: option.splits)

subsection \<open>Insertion sort\<close>








subsection \<open>The comparator of the ranking\<close>







subsection \<open>Log scanning\<close>

lemma ParseLog_opened:
  "gcs_NewReader w (Build.Bucket b) (GetBuildLogPath b) = (Some r, None) \<Longrightarrow>
   ParseLog w b checkLog = Inr ((List.map_filter (\<lambda>text. checkLog (Fields text)) (tokens r), None), 1)"
  by (simp add: ParseLog_def deferred_Close_def scan_loop_eq)

lemma ParseLog_nil_reader:
  "fst (gcs_NewReader w (Build.Bucket b) (GetBuildLogPath b)) = None \<Longrightarrow>
   ParseLog w b checkLog = Inl NilPointerDereference"
  by (cases "gcs_NewReader w (Build.Bucket b) (GetBuildLogPath b)")
    (simp add: ParseLog_def deferred_Close_def)

lemma ParseLog_closes_once:
  "ParseLog w b checkLog = Inr (result, closes) \<Longrightarrow> closes = 1"
  by (auto simp: ParseLog_def deferred_Close_def split: prod.splits option.splits sum.splits)

lemma ParseLog_open_error_with_reader:
  "gcs_NewReader w (Build.Bucket b) (GetBuildLogPath b) = (Some r, Some e) \<Longrightarrow>
   ParseLog w b checkLog = Inr (([], Some e), 1)"
  by (simp add: ParseLog_def deferred_Close_def)

subsection \<open>The sample bucket, evaluated\<close>

lemma example_Job_NewBuild:
  "Job_NewBuild example_job 3 = \<lparr>JobName = ''ci'', Build.StoragePath = ''logs/ci/3'', BuildID = 3, Build.Bucket = BucketName\<rparr>"
  "Job_NewBuild example_job 7 = \<lparr>JobName = ''ci'', Build.StoragePath = ''logs/ci/7'', BuildID = 7, Build.Bucket = BucketName\<rparr>"
  "Job_NewBuild example_job 10 = \<lparr>JobName = ''ci'', Build.StoragePath = ''logs/ci/10'', BuildID = 10, Build.Bucket = BucketName\<rparr>"
  "Job_NewBuild example_job (- 1) = \<lparr>JobName = ''ci'', Build.StoragePath = ''logs/ci/-1'', BuildID = - 1, Build.Bucket = BucketName\<rparr>"
  by (simp_all add: Job_NewBuild_def example_job_def Itoa_def digits.simps digit_char_def
      path_Join_def Clean_def clean_step_def)




lemma example_GetStartedTime:
  "snd (GetStartedTime example_env (Job_NewBuild example_job 3)) = (100, None)"
  "snd (GetStartedTime example_env (Job_NewBuild example_job 7)) = (- 1, Some (ErrDecode ''unexpected end of JSON input''))"
  "snd (GetStartedTime example_env (Job_NewBuild example_job 10)) = (50, None)"
  by (simp_all add: example_Job_NewBuild GetStartedTime_def unmarshalJSONFile_def FinishedJSON_def
      example_env_def example_timestamp_def path_Join_def Clean_def clean_step_def)




lemma example_GetBuildLogPath:
  "GetBuildLogPath (Job_NewBuild example_job 3) = ''logs/ci/3/build-log.txt''"
  "GetBuildLogPath (Job_NewBuild example_job 7) = ''logs/ci/7/build-log.txt''"
  "GetBuildLogPath (Job_NewBuild example_job 10) = ''logs/ci/10/build-log.txt''"
  "GetBuildLogPath (Job_NewBuild example_job (- 1)) = ''logs/ci/-1/build-log.txt''"
  by (simp_all add: example_Job_NewBuild GetBuildLogPath_def BuildLog_def path_Join_def Clean_def clean_step_def)

lemma example_NewReader:
  "gcs_NewReader example_env (Build.Bucket (Job_NewBuild example_job 3)) (GetBuildLogPath (Job_NewBuild example_job 3))
     = (Some \<lparr>tokens = [''build ok'', ''ERROR disk full'', ''build ok''], ending = None\<rparr>, None)"
  "gcs_NewReader example_env (Build.Bucket (Job_NewBuild example_job 7)) (GetBuildLogPath (Job_NewBuild example_job 7))
     = (Some \<lparr>tokens = [], ending = None\<rparr>, None)"
  "gcs_NewReader example_env (Build.Bucket (Job_NewBuild example_job 10)) (GetBuildLogPath (Job_NewBuild example_job 10))
     = (Some \<lparr>tokens = [''build ok'', ''ERROR disk full''],
               ending = Some (ErrStorage ''connection reset by peer'')\<rparr>, None)"
  "gcs_NewReader example_env (Build.Bucket (Job_NewBuild example_job (- 1))) (GetBuildLogPath (Job_NewBuild example_job (- 1)))
     = (None, Some (ErrStorage ''storage: object doesn't exist''))"
  by (simp_all add: example_GetBuildLogPath) (simp_all add: example_Job_NewBuild example_env_def)

lemma example_checkLog_lines:
  "example_checkLog (Fields ''build ok'') = None"
  "example_checkLog (Fields ''ERROR disk full'') = Some ''ERROR disk full''"
  by (simp_all add: example_checkLog_def Fields_def space_width_def asciiSpace_def)

text \<open>
  The package function \<^verbatim>\<open>NewBuild\<close> keeps the storage path that it is given, and
  \<^verbatim>\<open>path.Join\<close> cleans it when the marker is looked up.
\<close>

lemma example_NewBuild_as_given:
  "fst (GetStartedTime example_env (NewBuild ''ci'' ''logs/ci/3/'' 3)) = [(BucketName, ''logs/ci/3/finished.json'')]"
  "fst (GetStartedTime example_env (NewBuild ''ci'' [] 3)) = [(BucketName, ''finished.json'')]"
  by (simp_all add: GetStartedTime_def unmarshalJSONFile_def NewBuild_def FinishedJSON_def
      path_Join_def Clean_def clean_step_def split: sum.splits)

subsection \<open>C1: storage prefix of a job\<close>

text \<open>
  C1. \<^verbatim>\<open>NewJob\<close> with type Periodic or Postsubmit gives the storage prefix
  \<^verbatim>\<open>path.Clean("logs/<jobName>")\<close>; with type Presubmit it gives the cleaned
  \<^verbatim>\<open>pr-logs/pull/knative_<repo>/<pullID>/<jobName>\<close>, the pull identifier in decimal, and
  keeps the pull identifier on the job; with type Batch it gives the cleaned
  \<^verbatim>\<open>pr-logs/pull/batch/<jobName>\<close>, whatever the repository and pull identifier. In all
  three cases the fatal hook is not called. The prefix is the template itself exactly when
  the job name is a plain path (non-empty elements separated by single slashes, none of
  them \<^verbatim>\<open>.\<close> or \<^verbatim>\<open>..\<close>) and, for Presubmit, \<^verbatim>\<open>knative_<repo>\<close> is a plain path too.
\<close>

theorem NewJob_storage_prefix:
  "((jobType = PeriodicJob \<or> jobType = PostsubmitJob) \<longrightarrow>
        NewJob logFatalf jobName jobType repoName pullID
          = ([], Some \<lparr>Name = jobName, Type = jobType, Job.Bucket = BucketName, Repo = [],
                       Job.StoragePath = Clean (''logs/'' @ jobName), PullID = 0, Builds = []\<rparr>)
      \<and> (Clean (''logs/'' @ jobName) = ''logs/'' @ jobName \<longleftrightarrow> plain_path jobName))
   \<and> (jobType = PresubmitJob \<longrightarrow>
        NewJob logFatalf jobName jobType repoName pullID
          = ([], Some \<lparr>Name = jobName, Type = jobType, Job.Bucket = BucketName, Repo = [],
                       Job.StoragePath = Clean (''pr-logs/pull/knative_'' @ repoName @ ''/''
                                                 @ Itoa pullID @ ''/'' @ jobName),
                       PullID = pullID, Builds = []\<rparr>)
      \<and> (Clean (''pr-logs/pull/knative_'' @ repoName @ ''/'' @ Itoa pullID @ ''/'' @ jobName)
            = ''pr-logs/pull/knative_'' @ repoName @ ''/'' @ Itoa pullID @ ''/'' @ jobName
          \<longleftrightarrow> plain_path (''knative_'' @ repoName) \<and> plain_path jobName))
   \<and> (jobType = BatchJob \<longrightarrow>
        NewJob logFatalf jobName jobType repoName pullID
          = ([], Some \<lparr>Name = jobName, Type = jobType, Job.Bucket = BucketName, Repo = [],
                       Job.StoragePath = Clean (''pr-logs/pull/batch/'' @ jobName), PullID = 0,
                       Builds = []\<rparr>)
      \<and> (Clean (''pr-logs/pull/batch/'' @ jobName) = ''pr-logs/pull/batch/'' @ jobName
          \<longleftrightarrow> plain_path jobName))"
proof -
  have c: "plain_path ''logs''" "plain_path ''pr-logs''" "plain_path ''pull''" "plain_path ''batch''"
    by (simp_all add: plain_path_def plain_elem_def)
  have l: "Clean (''logs/'' @ jobName) = ''logs/'' @ jobName \<longleftrightarrow> plain_path jobName"
    using Clean_join_plain_iff [OF c(1), of "[jobName]"] by simp
  have b: "Clean (''pr-logs/pull/batch/'' @ jobName) = ''pr-logs/pull/batch/'' @ jobName
          \<longleftrightarrow> plain_path jobName"
    using Clean_join_plain_iff [OF c(2), of "[''pull'', ''batch'', jobName]"] c by simp
  have p: "Clean (''pr-logs/pull/knative_'' @ repoName @ ''/'' @ Itoa pullID @ ''/'' @ jobName)
            = ''pr-logs/pull/knative_'' @ repoName @ ''/'' @ Itoa pullID @ ''/'' @ jobName
          \<longleftrightarrow> plain_path (''knative_'' @ repoName) \<and> plain_path jobName"
    using Clean_join_plain_iff [OF c(2), of "[''pull'', ''knative_'' @ repoName, Itoa pullID, jobName]"]
      c Itoa_plain_path [of pullID]
    by simp
  have n: "NewJob logFatalf jobName jobType repoName pullID
          = ([], Some \<lparr>Name = jobName, Type = jobType, Job.Bucket = BucketName, Repo = [],
                       Job.StoragePath = Clean (''logs/'' @ jobName), PullID = 0, Builds = []\<rparr>)"
    if "jobType = PeriodicJob \<or> jobType = PostsubmitJob"
    using that by (simp add: NewJob_def path_Join_def)
  have m: "NewJob logFatalf jobName jobType repoName pullID
          = ([], Some \<lparr>Name = jobName, Type = jobType, Job.Bucket = BucketName, Repo = [],
                       Job.StoragePath = Clean (''pr-logs/pull/knative_'' @ repoName @ ''/''
                                                 @ Itoa pullID @ ''/'' @ jobName),
                       PullID = pullID, Builds = []\<rparr>)"
    if "jobType = PresubmitJob"
    using that job_types_distinct by (simp add: NewJob_def path_Join_def OrgName_def)
  have o: "NewJob logFatalf jobName jobType repoName pullID
          = ([], Some \<lparr>Name = jobName, Type = jobType, Job.Bucket = BucketName, Repo = [],
                       Job.StoragePath = Clean (''pr-logs/pull/batch/'' @ jobName), PullID = 0,
                       Builds = []\<rparr>)"
    if "jobType = BatchJob"
    using that job_types_distinct by (simp add: NewJob_def path_Join_def)
  show ?thesis
    using l b p n m o by blast
qed

text \<open>The three templates at a job of the serving repository.\<close>

theorem NewJob_storage_prefix_witness:
  "plain_path ''pull-knative-serving-unit-tests''
   \<and> plain_path (''knative_'' @ ''serving'')
   \<and> map_option Job.StoragePath (snd (NewJob log_Fatalf ''pull-knative-serving-unit-tests'' PeriodicJob ''serving'' 4217))
       = Some ''logs/pull-knative-serving-unit-tests''
   \<and> map_option Job.StoragePath (snd (NewJob log_Fatalf ''pull-knative-serving-unit-tests'' PresubmitJob ''serving'' 4217))
       = Some ''pr-logs/pull/knative_serving/4217/pull-knative-serving-unit-tests''
   \<and> map_option Job.StoragePath (snd (NewJob log_Fatalf ''pull-knative-serving-unit-tests'' BatchJob ''serving'' 4217))
       = Some ''pr-logs/pull/batch/pull-knative-serving-unit-tests''"
proof -
  have h: "plain_path ''pull-knative-serving-unit-tests''"
    by (simp add: plain_path_def plain_elem_def)
  have r: "plain_path (''knative_'' @ ''serving'')"
    by (simp add: plain_path_def plain_elem_def)
  have i: "Itoa 4217 = ''4217''"
    by (simp add: Itoa_def digits.simps digit_char_def)
  have a: "map_option Job.StoragePath (snd (NewJob log_Fatalf ''pull-knative-serving-unit-tests'' PeriodicJob ''serving'' 4217))
       = Some ''logs/pull-knative-serving-unit-tests''"
    using h NewJob_storage_prefix [of PeriodicJob log_Fatalf "''pull-knative-serving-unit-tests''" "''serving''" 4217]
    by simp
  have b: "map_option Job.StoragePath (snd (NewJob log_Fatalf ''pull-knative-serving-unit-tests'' PresubmitJob ''serving'' 4217))
       = Some ''pr-logs/pull/knative_serving/4217/pull-knative-serving-unit-tests''"
    using h r i NewJob_storage_prefix [of PresubmitJob log_Fatalf "''pull-knative-serving-unit-tests''" "''serving''" 4217]
    by simp
  have c: "map_option Job.StoragePath (snd (NewJob log_Fatalf ''pull-knative-serving-unit-tests'' BatchJob ''serving'' 4217))
       = Some ''pr-logs/pull/batch/pull-knative-serving-unit-tests''"
    using h NewJob_storage_prefix [of BatchJob log_Fatalf "''pull-knative-serving-unit-tests''" "''serving''" 4217]
    by simp
  show ?thesis using h r a b c by simp
qed

text \<open>
  Without the condition on the name the templates do not hold: for the job name \<^verbatim>\<open>..\<close>
  the prefix of a periodic job is \<^verbatim>\<open>.\<close>, since \<^verbatim>\<open>path.Join\<close> cleans \<^verbatim>\<open>logs/..\<close>.
\<close>

theorem NewJob_storage_prefix_counterexample:
  "map_option Job.StoragePath (snd (NewJob log_Fatalf ''..'' PeriodicJob ''serving'' 0)) = Some ''.''
   \<and> ''.'' \<noteq> ''logs/'' @ ''..''"
  by (simp add: NewJob_def PeriodicJob_def path_Join_def Clean_def clean_step_def)

subsection \<open>C2: build discovery\<close>

text \<open>
  C2. \<^verbatim>\<open>GetBuilds\<close> yields, in the order of the listing, one build for each listed path that
  \<^verbatim>\<open>getBuildIDFromBuildPath\<close> turns into a number, and passes over every other path without
  an error. A path is turned into the number \<open>n\<close> exactly when it consists of a directory
  part that is empty or ends with a slash, then an optional sign \<^verbatim>\<open>+\<close> or \<^verbatim>\<open>-\<close>, then one
  or more decimal digits, then spaces and slashes only, and \<open>n\<close>, the value of the digits
  with that sign, lies in the 64-bit range: the trailing spaces and slashes are cut off
  and the whole last element has to be the signed number. In particular the decimal
  rendering of every integer of that range is read back, alone or as the last element of
  a directory path, the negative ones with their minus sign included; so \<^verbatim>\<open>-1\<close> yields the
  build \<^verbatim>\<open>-1\<close>. There is no test for a negative identifier.
\<close>

theorem GetBuilds_discovery:
  "GetBuilds w j =
     map (Job_NewBuild j)
       (List.map_filter
          (\<lambda>gcsBuildPath. case getBuildIDFromBuildPath gcsBuildPath of
                             Inl err \<Rightarrow> None
                           | Inr buildID \<Rightarrow> Some buildID)
          (gcs_ListDirectChildren w (Job.Bucket j) (Job.StoragePath j)))
   \<and> (\<forall>gcsBuildPath n.
          getBuildIDFromBuildPath gcsBuildPath = Inr n \<longleftrightarrow>
            (\<exists>dir sign ds trail.
               gcsBuildPath = dir @ sign @ ds @ trail
               \<and> (dir = [] \<or> last dir = CHR ''/'')
               \<and> sign \<in> {[], ''+'', ''-''}
               \<and> ds \<noteq> [] \<and> set ds \<subseteq> set ''0123456789''
               \<and> set trail \<subseteq> set '' /''
               \<and> n = (if sign = ''-'' then - int (decimal_value ds) else int (decimal_value ds))
               \<and> - (2 ^ 63) \<le> n \<and> n < 2 ^ 63))
   \<and> (\<forall>i dir k. - (2 ^ 63) \<le> i \<and> i < 2 ^ 63 \<longrightarrow>
          getBuildIDFromBuildPath (Itoa i) = Inr i
        \<and> getBuildIDFromBuildPath (dir @ ''/'' @ Itoa i @ replicate k (CHR ''/'')) = Inr i)"
proof -
  have c1: "GetBuilds w j =
     map (Job_NewBuild j)
       (List.map_filter
          (\<lambda>gcsBuildPath. case getBuildIDFromBuildPath gcsBuildPath of
                             Inl err \<Rightarrow> None
                           | Inr buildID \<Rightarrow> Some buildID)
          (gcs_ListDirectChildren w (Job.Bucket j) (Job.StoragePath j)))"
    by (simp add: GetBuilds_def GetBuilds_loop_eq)
  have c2: "\<forall>gcsBuildPath n.
          getBuildIDFromBuildPath gcsBuildPath = Inr n \<longleftrightarrow>
            (\<exists>dir sign ds trail.
               gcsBuildPath = dir @ sign @ ds @ trail
               \<and> (dir = [] \<or> last dir = CHR ''/'')
               \<and> sign \<in> {[], ''+'', ''-''}
               \<and> ds \<noteq> [] \<and> set ds \<subseteq> set ''0123456789''
               \<and> set trail \<subseteq> set '' /''
               \<and> n = (if sign = ''-'' then - int (decimal_value ds) else int (decimal_value ds))
               \<and> - (2 ^ 63) \<le> n \<and> n < 2 ^ 63)"
    by (intro allI) (rule getBuildIDFromBuildPath_iff)
  have a: "getBuildIDFromBuildPath (Itoa i) = Inr i
         \<and> getBuildIDFromBuildPath (dir @ ''/'' @ Itoa i @ replicate k (CHR ''/'')) = Inr i"
    if "- (2 ^ 63) \<le> i \<and> i < 2 ^ 63" for i dir k
    using that getBuildIDFromBuildPath_Itoa(1) [of i] getBuildIDFromBuildPath_Itoa(2) [of i dir k]
    by blast
  then have c3: "\<forall>i dir k. - (2 ^ 63) \<le> i \<and> i < 2 ^ 63 \<longrightarrow>
          getBuildIDFromBuildPath (Itoa i) = Inr i
        \<and> getBuildIDFromBuildPath (dir @ ''/'' @ Itoa i @ replicate k (CHR ''/'')) = Inr i"
    by blast
  show ?thesis
    by (rule conjI [OF c1 conjI [OF c2 c3]])
qed

text \<open>
  The listing of the sample bucket yields the builds 3, 7, 10 and -1; \<^verbatim>\<open>abc\<close> is passed
  over. The path \<^verbatim>\<open>logs/ci/+5 / /\<close> is the number 5 and \<^verbatim>\<open>12\<close> followed by a space the
  number 12; a lone slash, a number with a space before it and a number beyond the
  range are no numbers.
\<close>

theorem GetBuilds_discovery_witness:
  "- (2 ^ 63) \<le> (- 1::int) \<and> (- 1::int) < 2 ^ 63
   \<and> Itoa (- 1) = ''-1''
   \<and> getBuildIDFromBuildPath ''-1'' = Inr (- 1)
   \<and> getBuildIDFromBuildPath (''logs/ci'' @ ''/'' @ ''-1'' @ replicate 1 (CHR ''/'')) = Inr (- 1)
   \<and> GetBuilds example_env example_job = map (Job_NewBuild example_job) [3, 7, 10, - 1]
   \<and> decimal_value ''5'' = 5 \<and> decimal_value ''12'' = 12
   \<and> getBuildIDFromBuildPath ''logs/ci/+5 / /'' = Inr 5
   \<and> getBuildIDFromBuildPath ''12 '' = Inr 12
   \<and> getBuildIDFromBuildPath ''/'' = Inl ErrSyntax
   \<and> getBuildIDFromBuildPath ''logs/ci/ 12'' = Inl ErrSyntax
   \<and> getBuildIDFromBuildPath ''logs/ci/9223372036854775808'' = Inl ErrRange"
proof -
  have h: "- (2 ^ 63) \<le> (- 1::int) \<and> (- 1::int) < 2 ^ 63" by simp
  have i: "Itoa (- 1) = ''-1''" by (simp add: Itoa_def digits.simps digit_char_def)
  have l: "gcs_ListDirectChildren example_env (Job.Bucket example_job) (Job.StoragePath example_job)
             = [''logs/ci/3/'', ''logs/ci/abc'', ''logs/ci/7/'', ''logs/ci/10/'', ''logs/ci/-1/'']"
    by (simp add: example_env_def example_job_def)
  have p: "map getBuildIDFromBuildPath [''logs/ci/3/'', ''logs/ci/abc'', ''logs/ci/7/'', ''logs/ci/10/'', ''logs/ci/-1/'']
             = [Inr 3, Inl ErrSyntax, Inr 7, Inr 10, Inr (- 1)]"
    by (simp add: getBuildIDFromBuildPath_def Atoi_def path_Split_def TrimRight_def digit_val_def maxUint64_def)
  have g: "getBuildIDFromBuildPath (Itoa (- 1)) = Inr (- 1)
         \<and> getBuildIDFromBuildPath (''logs/ci'' @ ''/'' @ Itoa (- 1) @ replicate 1 (CHR ''/'')) = Inr (- 1)"
    by (rule GetBuilds_discovery [of example_env example_job, THEN conjunct2, THEN conjunct2,
          rule_format, OF h])
  have b: "GetBuilds example_env example_job = map (Job_NewBuild example_job) [3, 7, 10, - 1]"
    using l p GetBuilds_discovery [of example_env example_job, THEN conjunct1]
    by (simp add: List.map_filter_simps)
  have v: "decimal_value ''5'' = 5 \<and> decimal_value ''12'' = 12" by (simp add: decimal_value_def)
  note number = GetBuilds_discovery [of example_env example_job, THEN conjunct2, THEN conjunct1, rule_format]
  have "\<exists>dir sign ds trail.
           ''logs/ci/+5 / /'' = dir @ sign @ ds @ trail
         \<and> (dir = [] \<or> last dir = CHR ''/'')
         \<and> sign \<in> {[], ''+'', ''-''}
         \<and> ds \<noteq> [] \<and> set ds \<subseteq> set ''0123456789''
         \<and> set trail \<subseteq> set '' /''
         \<and> (5::int) = (if sign = ''-'' then - int (decimal_value ds) else int (decimal_value ds))
         \<and> - (2 ^ 63) \<le> (5::int) \<and> (5::int) < 2 ^ 63"
    by (rule exI [of _ "''logs/ci/''"], rule exI [of _ "''+''"], rule exI [of _ "''5''"],
        rule exI [of _ "'' / /''"]) (simp add: decimal_value_def)
  then have n5: "getBuildIDFromBuildPath ''logs/ci/+5 / /'' = Inr 5"
    by (rule iffD2 [OF number])
  have "\<exists>dir sign ds trail.
           ''12 '' = dir @ sign @ ds @ trail
         \<and> (dir = [] \<or> last dir = CHR ''/'')
         \<and> sign \<in> {[], ''+'', ''-''}
         \<and> ds \<noteq> [] \<and> set ds \<subseteq> set ''0123456789''
         \<and> set trail \<subseteq> set '' /''
         \<and> (12::int) = (if sign = ''-'' then - int (decimal_value ds) else int (decimal_value ds))
         \<and> - (2 ^ 63) \<le> (12::int) \<and> (12::int) < 2 ^ 63"
    by (rule exI [of _ "[]"], rule exI [of _ "[]"], rule exI [of _ "''12''"],
        rule exI [of _ "'' ''"]) (simp add: decimal_value_def)
  then have n12: "getBuildIDFromBuildPath ''12 '' = Inr 12"
    by (rule iffD2 [OF number])
  have e: "getBuildIDFromBuildPath ''/'' = Inl ErrSyntax
         \<and> getBuildIDFromBuildPath ''logs/ci/ 12'' = Inl ErrSyntax
         \<and> getBuildIDFromBuildPath ''logs/ci/9223372036854775808'' = Inl ErrRange"
    by (simp add: getBuildIDFromBuildPath_def Atoi_def path_Split_def TrimRight_def digit_val_def maxUint64_def)
  show ?thesis
    using h i g b v n5 n12 e by simp
qed

text \<open>
  A non-negative identifier is not required: of the children \<^verbatim>\<open>3\<close>, \<^verbatim>\<open>abc\<close>, \<^verbatim>\<open>07\<close>,
  \<^verbatim>\<open>10\<close> and \<^verbatim>\<open>-1\<close>, the last one yields a build as well.
\<close>

theorem GetBuilds_discovery_counterexample:
  "map BuildID
     (GetBuilds (example_env\<lparr>gcs_ListDirectChildren := \<lambda>bucket prefix. [''3'', ''abc'', ''07'', ''10'', ''-1'']\<rparr>)
        example_job)
     = [3, 7, 10, - 1]"
  by (simp add: GetBuilds_def Job_NewBuild_def getBuildIDFromBuildPath_def Atoi_def path_Split_def
      TrimRight_def digit_val_def maxUint64_def)

subsection \<open>C3: the latest builds\<close>




subsection \<open>C4: a read error in the middle of the log\<close>

text \<open>
  C4. The log of build 10 of the sample bucket breaks after two lines: the scanner stops
  with a read error. \<^verbatim>\<open>ParseLog\<close> returns the fragment found so far and no error: after
  the loop it returns \<^verbatim>\<open>logs, nil\<close> without looking at \<^verbatim>\<open>scanner.Err()\<close>.
\<close>

theorem ParseLog_swallows_read_error:
  "gcs_NewReader example_env (Build.Bucket (Job_NewBuild example_job 10)) (GetBuildLogPath (Job_NewBuild example_job 10))
     = (Some \<lparr>tokens = [''build ok'', ''ERROR disk full''],
               ending = Some (ErrStorage ''connection reset by peer'')\<rparr>, None)
   \<and> ParseLog example_env (Job_NewBuild example_job 10) example_checkLog
     = Inr (([''ERROR disk full''], None), 1)"
  by (simp add: example_NewReader ParseLog_opened List.map_filter_simps example_checkLog_lines)

subsection \<open>C5: releasing the reader\<close>

text \<open>
  C5. The log of build -1 of the sample bucket cannot be opened: \<^verbatim>\<open>gcs.NewReader\<close> answers
  a nil reader and an error. \<^verbatim>\<open>ParseLog\<close> has registered \<^verbatim>\<open>defer f.Close()\<close> before it
  looks at the error, so the deferred call goes through the nil reader when the function
  is left, and the call panics instead of returning the error.
\<close>

theorem ParseLog_open_failure_panics:
  "gcs_NewReader example_env (Build.Bucket (Job_NewBuild example_job (- 1))) (GetBuildLogPath (Job_NewBuild example_job (- 1)))
     = (None, Some (ErrStorage ''storage: object doesn't exist''))
   \<and> ParseLog example_env (Job_NewBuild example_job (- 1)) example_checkLog = Inl NilPointerDereference"
  by (simp add: example_NewReader ParseLog_nil_reader)

subsection \<open>C6: one marker behind both timestamps\<close>

text \<open>
  C6. For every build, \<^verbatim>\<open>GetStartedTime\<close> and \<^verbatim>\<open>GetFinishedTime\<close> each read exactly one
  object, the same one: the object \<^verbatim>\<open>path.Join(StoragePath, "finished.json")\<close> of the
  fixed bucket. It is not the object that \<^verbatim>\<open>IsStarted\<close> looks for,
  \<^verbatim>\<open>path.Join(StoragePath, "started.json")\<close>. For every build that the method \<^verbatim>\<open>NewBuild\<close>
  makes, of any job and with any identifier, and for every build whose storage path is a
  plain path, the name of the object is literally \<^verbatim>\<open><StoragePath>/finished.json\<close>. The two
  functions differ in the decoder only: each returns -1 and the error when the read or
  its decoder fails and the timestamp that its decoder finds otherwise, so the two return
  the same exactly when the read fails or the two decoders find the same timestamp, or
  fail alike, on the contents read.
\<close>

theorem timestamps_share_finished_marker:
  "fst (GetStartedTime w b) = [(BucketName, path_Join [Build.StoragePath b, FinishedJSON])]
   \<and> fst (GetFinishedTime w b) = [(BucketName, path_Join [Build.StoragePath b, FinishedJSON])]
   \<and> (BucketName, path_Join [Build.StoragePath b, StartedJSON]) \<notin> set (fst (GetStartedTime w b))
   \<and> fst (GetStartedTime w (Job_NewBuild j buildID))
        = [(BucketName, Build.StoragePath (Job_NewBuild j buildID) @ ''/finished.json'')]
   \<and> fst (GetFinishedTime w (Job_NewBuild j buildID))
        = [(BucketName, Build.StoragePath (Job_NewBuild j buildID) @ ''/finished.json'')]
   \<and> (plain_path (Build.StoragePath b) \<longrightarrow>
        path_Join [Build.StoragePath b, FinishedJSON] = Build.StoragePath b @ ''/finished.json'')
   \<and> snd (GetStartedTime w b)
        = (case gcs_Read w BucketName (path_Join [Build.StoragePath b, FinishedJSON]) of
             Inl err \<Rightarrow> (- 1, Some err)
           | Inr contents \<Rightarrow>
               (case json_Unmarshal_Started w contents of
                  Inl err \<Rightarrow> (- 1, Some err)
                | Inr started \<Rightarrow> (Started.Timestamp started, None)))
   \<and> snd (GetFinishedTime w b)
        = (case gcs_Read w BucketName (path_Join [Build.StoragePath b, FinishedJSON]) of
             Inl err \<Rightarrow> (- 1, Some err)
           | Inr contents \<Rightarrow>
               (case json_Unmarshal_Finished w contents of
                  Inl err \<Rightarrow> (- 1, Some err)
                | Inr finished \<Rightarrow> (Finished.Timestamp finished, None)))
   \<and> (GetStartedTime w b = GetFinishedTime w b \<longleftrightarrow>
        (\<forall>contents. gcs_Read w BucketName (path_Join [Build.StoragePath b, FinishedJSON]) = Inr contents \<longrightarrow>
           map_sum id Started.Timestamp (json_Unmarshal_Started w contents)
             = map_sum id Finished.Timestamp (json_Unmarshal_Finished w contents)))"
proof -
  let ?p = "path_Join [Build.StoragePath b, FinishedJSON]"
  have s: "fst (GetStartedTime w b) = [(BucketName, path_Join [Build.StoragePath b, FinishedJSON])]" for b
    by (simp add: GetStartedTime_def unmarshalJSONFile_def split: sum.splits)
  have f: "fst (GetFinishedTime w b) = [(BucketName, path_Join [Build.StoragePath b, FinishedJSON])]" for b
    by (simp add: GetFinishedTime_def unmarshalJSONFile_def split: sum.splits)
  have n: "(BucketName, path_Join [Build.StoragePath b, StartedJSON]) \<notin> set (fst (GetStartedTime w b))"
    using finished_is_not_started [of "Build.StoragePath b"] by (simp add: s)
  have js: "fst (GetStartedTime w (Job_NewBuild j buildID))
        = [(BucketName, Build.StoragePath (Job_NewBuild j buildID) @ ''/finished.json'')]"
    unfolding s Job_NewBuild_finished_marker ..
  have jf: "fst (GetFinishedTime w (Job_NewBuild j buildID))
        = [(BucketName, Build.StoragePath (Job_NewBuild j buildID) @ ''/finished.json'')]"
    unfolding f Job_NewBuild_finished_marker ..
  have l: "plain_path (Build.StoragePath b) \<longrightarrow> ?p = Build.StoragePath b @ ''/finished.json''"
    using plain_file_names(5) path_Join_plain [of "[Build.StoragePath b, FinishedJSON]"]
    by (simp add: FinishedJSON_def)
  have ds: "snd (GetStartedTime w b)
        = (case gcs_Read w BucketName ?p of
             Inl err \<Rightarrow> (- 1, Some err)
           | Inr contents \<Rightarrow>
               (case json_Unmarshal_Started w contents of
                  Inl err \<Rightarrow> (- 1, Some err)
                | Inr started \<Rightarrow> (Started.Timestamp started, None)))"
    by (simp add: GetStartedTime_def unmarshalJSONFile_def split: sum.splits)
  have df: "snd (GetFinishedTime w b)
        = (case gcs_Read w BucketName ?p of
             Inl err \<Rightarrow> (- 1, Some err)
           | Inr contents \<Rightarrow>
               (case json_Unmarshal_Finished w contents of
                  Inl err \<Rightarrow> (- 1, Some err)
                | Inr finished \<Rightarrow> (Finished.Timestamp finished, None)))"
    by (simp add: GetFinishedTime_def unmarshalJSONFile_def split: sum.splits)
  have "GetStartedTime w b = GetFinishedTime w b \<longleftrightarrow> snd (GetStartedTime w b) = snd (GetFinishedTime w b)"
    using s [of b] f [of b] by (simp add: prod_eq_iff)
  also have "\<dots> \<longleftrightarrow>
        (\<forall>contents. gcs_Read w BucketName ?p = Inr contents \<longrightarrow>
           map_sum id Started.Timestamp (json_Unmarshal_Started w contents)
             = map_sum id Finished.Timestamp (json_Unmarshal_Finished w contents))"
  proof (cases "gcs_Read w BucketName ?p")
    case (Inl err)
    then show ?thesis unfolding ds df by simp
  next
    case (Inr contents)
    show ?thesis
      unfolding ds df Inr
      by (cases "json_Unmarshal_Started w contents"; cases "json_Unmarshal_Finished w contents")
         simp_all
  qed
  finally have e: "GetStartedTime w b = GetFinishedTime w b \<longleftrightarrow>
        (\<forall>contents. gcs_Read w BucketName ?p = Inr contents \<longrightarrow>
           map_sum id Started.Timestamp (json_Unmarshal_Started w contents)
             = map_sum id Finished.Timestamp (json_Unmarshal_Finished w contents))" .
  show ?thesis
    by (rule conjI [OF s conjI [OF f conjI [OF n conjI [OF js conjI [OF jf conjI [OF l
          conjI [OF ds conjI [OF df e]]]]]]]])
qed

text \<open>
  Build 3 of the sample bucket: both functions read its finish marker, on which the two
  decoders find the timestamp 100, and return 100.
\<close>

theorem timestamps_share_finished_marker_witness:
  "plain_path (Build.StoragePath (Job_NewBuild example_job 3))
   \<and> Build.StoragePath (Job_NewBuild example_job 3) = ''logs/ci/3''
   \<and> gcs_Read example_env BucketName ''logs/ci/3/finished.json'' = Inr ''{timestamp: 100, passed: true}''
   \<and> map_sum id Started.Timestamp (json_Unmarshal_Started example_env ''{timestamp: 100, passed: true}'')
        = map_sum id Finished.Timestamp (json_Unmarshal_Finished example_env ''{timestamp: 100, passed: true}'')
   \<and> fst (GetStartedTime example_env (Job_NewBuild example_job 3)) = [(BucketName, ''logs/ci/3/finished.json'')]
   \<and> fst (GetFinishedTime example_env (Job_NewBuild example_job 3)) = [(BucketName, ''logs/ci/3/finished.json'')]
   \<and> path_Join [''logs/ci/3'', FinishedJSON] = ''logs/ci/3/finished.json''
   \<and> GetStartedTime example_env (Job_NewBuild example_job 3) = GetFinishedTime example_env (Job_NewBuild example_job 3)
   \<and> snd (GetStartedTime example_env (Job_NewBuild example_job 3)) = (100, None)
   \<and> snd (GetFinishedTime example_env (Job_NewBuild example_job 3)) = (100, None)"
proof -
  note t = timestamps_share_finished_marker [of example_env "Job_NewBuild example_job 3" example_job 3]
  have p: "plain_path (Build.StoragePath (Job_NewBuild example_job 3))"
    by (simp add: example_Job_NewBuild plain_path_def plain_elem_def)
  have s: "Build.StoragePath (Job_NewBuild example_job 3) = ''logs/ci/3''"
    by (simp add: example_Job_NewBuild)
  have l: "path_Join [''logs/ci/3'', FinishedJSON] = ''logs/ci/3/finished.json''"
    using t [THEN conjunct2, THEN conjunct2, THEN conjunct2, THEN conjunct2, THEN conjunct2,
             THEN conjunct1, rule_format, OF p]
    by (simp add: s)
  have js: "fst (GetStartedTime example_env (Job_NewBuild example_job 3)) = [(BucketName, ''logs/ci/3/finished.json'')]"
    using t [THEN conjunct2, THEN conjunct2, THEN conjunct2, THEN conjunct1] by (simp add: s)
  have jf: "fst (GetFinishedTime example_env (Job_NewBuild example_job 3)) = [(BucketName, ''logs/ci/3/finished.json'')]"
    using t [THEN conjunct2, THEN conjunct2, THEN conjunct2, THEN conjunct2, THEN conjunct1]
    by (simp add: s)
  have r: "gcs_Read example_env BucketName ''logs/ci/3/finished.json'' = Inr ''{timestamp: 100, passed: true}''"
    by (simp add: example_env_def)
  have d: "map_sum id Started.Timestamp (json_Unmarshal_Started example_env ''{timestamp: 100, passed: true}'')
        = map_sum id Finished.Timestamp (json_Unmarshal_Finished example_env ''{timestamp: 100, passed: true}'')"
    by (simp add: example_env_def example_timestamp_def)
  have "\<forall>contents. gcs_Read example_env BucketName
                      (path_Join [Build.StoragePath (Job_NewBuild example_job 3), FinishedJSON]) = Inr contents \<longrightarrow>
           map_sum id Started.Timestamp (json_Unmarshal_Started example_env contents)
             = map_sum id Finished.Timestamp (json_Unmarshal_Finished example_env contents)"
    unfolding s l r using d by simp
  then have e: "GetStartedTime example_env (Job_NewBuild example_job 3)
                  = GetFinishedTime example_env (Job_NewBuild example_job 3)"
    by (rule iffD2 [OF t [THEN conjunct2, THEN conjunct2, THEN conjunct2, THEN conjunct2,
          THEN conjunct2, THEN conjunct2, THEN conjunct2, THEN conjunct2]])
  have v: "snd (GetStartedTime example_env (Job_NewBuild example_job 3)) = (100, None)"
    by (rule example_GetStartedTime(1))
  then have v': "snd (GetFinishedTime example_env (Job_NewBuild example_job 3)) = (100, None)"
    using e by simp
  show ?thesis
    using p s r d js jf l e v v' by simp
qed

subsection \<open>C7: unknown job type\<close>

text \<open>
  C7. For a job type that is none of the four, \<^verbatim>\<open>NewJob\<close> calls the fatal hook once, with
  the message \<^verbatim>\<open>unknown job spec type: <type>\<close>, and sets no storage path. When the hook
  ends the process, no job is returned; that is so for \<^verbatim>\<open>log.Fatalf\<close>, the hook in place
  unless it has been replaced. When the hook returns, \<^verbatim>\<open>NewJob\<close> goes on and returns the
  job with an empty storage path.
\<close>

theorem NewJob_unknown_type:
  assumes "jobType \<notin> {PresubmitJob, PostsubmitJob, PeriodicJob, BatchJob}"
  shows "fst (NewJob logFatalf jobName jobType repoName pullID) = [''unknown job spec type: '' @ jobType]
       \<and> (logFatalf (''unknown job spec type: '' @ jobType) = ExitsProcess \<longrightarrow>
            snd (NewJob logFatalf jobName jobType repoName pullID) = None)
       \<and> (logFatalf (''unknown job spec type: '' @ jobType) = ReturnsToCaller \<longrightarrow>
            snd (NewJob logFatalf jobName jobType repoName pullID)
              = Some \<lparr>Name = jobName, Type = jobType, Job.Bucket = BucketName, Repo = [],
                      Job.StoragePath = [], PullID = 0, Builds = []\<rparr>)
       \<and> snd (NewJob log_Fatalf jobName jobType repoName pullID) = None"
  using assms by (simp add: NewJob_def log_Fatalf_def Let_def split: fatal_hook_result.splits)

text \<open>
  The type \<^verbatim>\<open>nightly\<close>, with \<^verbatim>\<open>log.Fatalf\<close> and with a hook that returns.
\<close>

theorem NewJob_unknown_type_witness:
  "''nightly'' \<notin> {PresubmitJob, PostsubmitJob, PeriodicJob, BatchJob}
   \<and> log_Fatalf (''unknown job spec type: '' @ ''nightly'') = ExitsProcess
   \<and> NewJob log_Fatalf ''ci'' ''nightly'' ''serving'' 0 = ([''unknown job spec type: nightly''], None)
   \<and> (\<lambda>msg. ReturnsToCaller) (''unknown job spec type: '' @ ''nightly'') = ReturnsToCaller
   \<and> fst (NewJob (\<lambda>msg. ReturnsToCaller) ''ci'' ''nightly'' ''serving'' 0) = [''unknown job spec type: nightly'']"
proof -
  have h: "''nightly'' \<notin> {PresubmitJob, PostsubmitJob, PeriodicJob, BatchJob}"
    by (simp add: PresubmitJob_def PostsubmitJob_def PeriodicJob_def BatchJob_def)
  have e: "log_Fatalf (''unknown job spec type: '' @ ''nightly'') = ExitsProcess"
    by (simp add: log_Fatalf_def)
  show ?thesis
    using h e
      NewJob_unknown_type [OF h, of log_Fatalf "''ci''" "''serving''" 0]
      NewJob_unknown_type [OF h, of "\<lambda>msg. ReturnsToCaller" "''ci''" "''serving''" 0]
    by (simp add: prod_eq_iff)
qed

text \<open>
  With a hook that returns, as a test installs it, a job with an empty storage path
  reaches the caller.
\<close>

theorem NewJob_unknown_type_counterexample:
  "''nightly'' \<notin> {PresubmitJob, PostsubmitJob, PeriodicJob, BatchJob}
   \<and> NewJob (\<lambda>msg. ReturnsToCaller) ''ci'' ''nightly'' ''serving'' 0
       = ([''unknown job spec type: nightly''],
          Some \<lparr>Name = ''ci'', Type = ''nightly'', Job.Bucket = BucketName, Repo = [],
                Job.StoragePath = [], PullID = 0, Builds = []\<rparr>)"
  by (simp add: NewJob_def PresubmitJob_def PostsubmitJob_def PeriodicJob_def BatchJob_def)

subsection \<open>C8: the fragments of a log\<close>

text \<open>
  C8. When the reader opens and the scanner reaches the end of the stream without an
  error, \<^verbatim>\<open>ParseLog\<close> returns, in the order of the lines, the results of \<^verbatim>\<open>checkLog\<close>
  on the words of each line that are not nil, and no error; the reader is closed once. A
  line for which \<^verbatim>\<open>checkLog\<close> answers nil adds nothing, and a log without lines gives the
  empty sequence.
\<close>

theorem ParseLog_collects:
  assumes "gcs_NewReader w (Build.Bucket b) (GetBuildLogPath b) = (Some r, None)"
      and "ending r = None"
  shows "ParseLog w b checkLog
           = Inr ((List.map_filter (\<lambda>text. checkLog (Fields text)) (tokens r), None), 1)
       \<and> (tokens r = [] \<longrightarrow> ParseLog w b checkLog = Inr (([], None), 1))"
  using assms(1) by (simp add: ParseLog_opened List.map_filter_simps)

text \<open>
  The log of build 3 of the sample bucket has the lines \<^verbatim>\<open>build ok\<close>, \<^verbatim>\<open>ERROR disk full\<close>,
  \<^verbatim>\<open>build ok\<close>; the log of build 7 is empty.
\<close>

theorem ParseLog_collects_witness:
  "gcs_NewReader example_env (Build.Bucket (Job_NewBuild example_job 3)) (GetBuildLogPath (Job_NewBuild example_job 3))
     = (Some \<lparr>tokens = [''build ok'', ''ERROR disk full'', ''build ok''], ending = None\<rparr>, None)
   \<and> ending \<lparr>tokens = [''build ok'', ''ERROR disk full'', ''build ok''], ending = None\<rparr> = None
   \<and> ParseLog example_env (Job_NewBuild example_job 3) example_checkLog = Inr (([''ERROR disk full''], None), 1)
   \<and> gcs_NewReader example_env (Build.Bucket (Job_NewBuild example_job 7)) (GetBuildLogPath (Job_NewBuild example_job 7))
     = (Some \<lparr>tokens = [], ending = None\<rparr>, None)
   \<and> tokens \<lparr>tokens = [], ending = None\<rparr> = []
   \<and> ParseLog example_env (Job_NewBuild example_job 7) example_checkLog = Inr (([], None), 1)"
  using example_NewReader(1,2)
    ParseLog_collects [OF example_NewReader(1), of example_checkLog]
    ParseLog_collects [OF example_NewReader(2), of example_checkLog]
  by (simp add: List.map_filter_simps example_checkLog_lines)

subsection \<open>C9: a build of a job\<close>

text \<open>
  C9. For a job returned by \<^verbatim>\<open>NewJob\<close> for one of the four job types and every build
  identifier, the method \<^verbatim>\<open>NewBuild\<close> keeps the identifier. When the storage path of the
  job is not \<^verbatim>\<open>.\<close>, the storage path of the build is \<^verbatim>\<open><job.StoragePath>/<id>\<close>, the
  identifier rendered by \<^verbatim>\<open>strconv.Itoa\<close>; when it is \<^verbatim>\<open>.\<close>, the storage path of the build
  is the rendered identifier alone. For an identifier that is not negative the rendering
  consists of decimal digits, begins with a zero only when the identifier is zero, and is
  read back as the identifier by \<^verbatim>\<open>strconv.Atoi\<close>.
\<close>

theorem Job_NewBuild_roundtrip:
  assumes "jobType \<in> {PresubmitJob, PostsubmitJob, PeriodicJob, BatchJob}"
      and "snd (NewJob logFatalf jobName jobType repoName pullID) = Some j"
  shows "BuildID (Job_NewBuild j buildID) = buildID
       \<and> (Job.StoragePath j \<noteq> ''.'' \<longrightarrow>
            Build.StoragePath (Job_NewBuild j buildID) = Job.StoragePath j @ ''/'' @ Itoa buildID)
       \<and> (Job.StoragePath j = ''.'' \<longrightarrow> Build.StoragePath (Job_NewBuild j buildID) = Itoa buildID)
       \<and> (0 \<le> buildID \<longrightarrow>
            set (Itoa buildID) \<subseteq> set ''0123456789'' \<and> (hd (Itoa buildID) = CHR ''0'' \<longrightarrow> buildID = 0))
       \<and> (0 \<le> buildID \<and> buildID < 2 ^ 63 \<longrightarrow> Atoi (Itoa buildID) = Inr buildID)"
proof -
  obtain e es where e: "e \<noteq> []" "hd e \<noteq> CHR ''/''" and sp: "Job.StoragePath j = path_Join (e # es)"
    using NewJob_StoragePath [OF assms(1,2)] by blast
  have p: "Build.StoragePath (Job_NewBuild j buildID) = Job.StoragePath j @ ''/'' @ Itoa buildID"
    if "Job.StoragePath j \<noteq> ''.''"
  proof -
    have "path_Join (e # es) \<noteq> ''.''" using that sp by simp
    with e have "path_Join [path_Join (e # es), Itoa buildID] = path_Join (e # es) @ ''/'' @ Itoa buildID"
      using Itoa_plain_elem Itoa_slash_free by (rule path_Join_then_Join)
    then show ?thesis using sp by (simp add: Job_NewBuild_def)
  qed
  have q: "Build.StoragePath (Job_NewBuild j buildID) = Itoa buildID" if "Job.StoragePath j = ''.''"
    using that path_Join_dot [OF Itoa_plain_elem Itoa_slash_free, of buildID]
    by (simp add: Job_NewBuild_def)
  have i: "BuildID (Job_NewBuild j buildID) = buildID" by (simp add: Job_NewBuild_def)
  have d: "set (Itoa buildID) \<subseteq> set ''0123456789'' \<and> (hd (Itoa buildID) = CHR ''0'' \<longrightarrow> buildID = 0)"
    if "0 \<le> buildID"
  proof -
    have "Itoa buildID = digits (nat buildID)" using that by (simp add: Itoa_def)
    moreover have "hd (digits (nat buildID)) \<noteq> CHR ''0''" if "buildID \<noteq> 0"
      using that \<open>0 \<le> buildID\<close> by (intro hd_digits_nonzero) simp
    ultimately show ?thesis using digits_chars [of "nat buildID"] by auto
  qed
  have a: "Atoi (Itoa buildID) = Inr buildID" if "0 \<le> buildID \<and> buildID < 2 ^ 63"
    using that by (intro Atoi_Itoa) simp_all
  show ?thesis using i p q d a by blast
qed

text \<open>
  Build 10 of the sample job, the job that \<^verbatim>\<open>NewJob\<close> returns for the periodic job
  \<^verbatim>\<open>ci\<close>, and build 10 of the periodic job named \<^verbatim>\<open>..\<close>.
\<close>

theorem Job_NewBuild_roundtrip_witness:
  "PeriodicJob \<in> {PresubmitJob, PostsubmitJob, PeriodicJob, BatchJob}
   \<and> snd (NewJob log_Fatalf ''ci'' PeriodicJob [] 0) = Some example_job
   \<and> Job.StoragePath example_job \<noteq> ''.''
   \<and> (0::int) \<le> 10 \<and> (10::int) < 2 ^ 63
   \<and> BuildID (Job_NewBuild example_job 10) = 10
   \<and> Build.StoragePath (Job_NewBuild example_job 10) = ''logs/ci/10''
   \<and> Atoi ''10'' = Inr 10
   \<and> snd (NewJob log_Fatalf ''..'' PeriodicJob [] 0) = Some (example_job\<lparr>Name := ''..'', Job.StoragePath := ''.''\<rparr>)
   \<and> Job.StoragePath (example_job\<lparr>Name := ''..'', Job.StoragePath := ''.''\<rparr>) = ''.''
   \<and> Build.StoragePath (Job_NewBuild (example_job\<lparr>Name := ''..'', Job.StoragePath := ''.''\<rparr>) 10) = ''10''"
proof -
  have t: "PeriodicJob \<in> {PresubmitJob, PostsubmitJob, PeriodicJob, BatchJob}" by simp
  have j: "snd (NewJob log_Fatalf ''ci'' PeriodicJob [] 0) = Some example_job"
    by (simp add: NewJob_def example_job_def path_Join_def Clean_def clean_step_def)
  have k: "snd (NewJob log_Fatalf ''..'' PeriodicJob [] 0)
             = Some (example_job\<lparr>Name := ''..'', Job.StoragePath := ''.''\<rparr>)"
    by (simp add: NewJob_def example_job_def path_Join_def Clean_def clean_step_def)
  have s: "Job.StoragePath example_job \<noteq> ''.''" by (simp add: example_job_def)
  have i: "Itoa 10 = ''10''" by (simp add: Itoa_def digits.simps digit_char_def)
  have p: "Job.StoragePath example_job = ''logs/ci''" by (simp add: example_job_def)
  show ?thesis
    using t j k s i p Job_NewBuild_roundtrip [OF t j, of 10] Job_NewBuild_roundtrip [OF t k, of 10]
    by simp
qed

text \<open>
  The periodic job named \<^verbatim>\<open>..\<close> has the storage path \<^verbatim>\<open>.\<close>, and its build 7 the storage
  path \<^verbatim>\<open>7\<close>, without a slash.
\<close>

theorem Job_NewBuild_roundtrip_counterexample:
  "PeriodicJob \<in> {PresubmitJob, PostsubmitJob, PeriodicJob, BatchJob}
   \<and> map_option Job.StoragePath (snd (NewJob log_Fatalf ''..'' PeriodicJob ''serving'' 0)) = Some ''.''
   \<and> map_option (\<lambda>j. Build.StoragePath (Job_NewBuild j 7)) (snd (NewJob log_Fatalf ''..'' PeriodicJob ''serving'' 0))
       = Some ''7''"
  by (simp add: NewJob_def Job_NewBuild_def PeriodicJob_def path_Join_def Clean_def clean_step_def
      Itoa_def digits.simps digit_char_def)

subsection \<open>C10: a negative count\<close>

text \<open>
  C10. Whatever \<^verbatim>\<open>sort.Slice\<close> does with the finished builds, for a negative count the
  test \<^verbatim>\<open>len(builds) < count\<close> fails, the slice expression \<^verbatim>\<open>builds[:count]\<close> is evaluated
  with a negative bound, and \<^verbatim>\<open>GetLatestBuilds\<close> panics. For every other count it returns.
\<close>

theorem GetLatestBuilds_negative_count:
  "(count' < 0 \<longrightarrow>
      \<not> int (length (sort_Slice (GetLatestBuilds_less w) (GetFinishedBuilds w j))) < count'
      \<and> GetLatestBuilds sort_Slice w j count' = Inl (SliceBoundsOutOfRange count'))
   \<and> (0 \<le> count' \<longrightarrow> (\<exists>builds. GetLatestBuilds sort_Slice w j count' = Inr builds))"
  by (simp add: GetLatestBuilds_def slice_to_def Let_def)

text \<open>
  The sample bucket with the counts -3 and 1, sorted by insertion.
\<close>

theorem GetLatestBuilds_negative_count_witness:
  "(- 3::int) < 0
   \<and> GetLatestBuilds insertionSort example_env example_job (- 3) = Inl (SliceBoundsOutOfRange (- 3))
   \<and> (0::int) \<le> 1
   \<and> (\<exists>builds. GetLatestBuilds insertionSort example_env example_job 1 = Inr builds)"
  using GetLatestBuilds_negative_count [of "- 3" insertionSort example_env example_job]
        GetLatestBuilds_negative_count [of 1 insertionSort example_env example_job]
  by simp


end
